theory Spec2Isabelle
  imports Complex_Main
begin

section \<open>The ingestion pipeline of App.jsx\<close>

text \<open>
  The component \<open>App\<close> keeps the state of a simulated six-stage pipeline in React state
  cells (\<open>file\<close>, here \<open>file'\<close>; \<open>processing\<close>, \<open>paused\<close>, \<open>currentStepIndex\<close>, \<open>stepProgress\<close>,
  \<open>errorMessage\<close>) and in three refs (\<open>timerRef\<close>, \<open>stepStartRef\<close>, \<open>elapsedRef\<close>).
  All of them are fields of one record here, together with the part of the browser the
  component talks to: the list of animation-frame callbacks that are requested and not
  yet run or cancelled, and the counter that hands out their ids.

  JavaScript numbers that carry times and percentages are modelled as \<open>real\<close>. The
  handlers and \<open>tick\<close> are given with exact arithmetic first; \<open>resume\<close> and \<open>tick\<close>, whose
  subtractions decide what a pause and resume do to the elapsed time, are given a second
  time with every result rounded to a double (\<open>resume_fl\<close>, \<open>tick_fl\<close>). Each call of
  \<open>performance.now()\<close> is an argument of the function that makes it, so that two calls in
  one function are two arguments.
  The cell \<open>uploadInit\<close> and the network call \<open>initiateUpload\<close> are left out: no
  function below reads what they write.
\<close>

subsection \<open>Stage table\<close>

record step =
  key :: string
  label :: string
  durationMs :: real

definition STEP_DEFINITIONS :: "step list" where
  "STEP_DEFINITIONS =
    [\<lparr>key = ''extract'', label = ''Extract audio (ffmpeg)'', durationMs = 2000\<rparr>,
     \<lparr>key = ''transcribe'', label = ''Transcribe (Whisper)'', durationMs = 3000\<rparr>,
     \<lparr>key = ''parse'', label = ''Parse fields (AI+rules)'', durationMs = 2000\<rparr>,
     \<lparr>key = ''merge'', label = ''Merge top/bottom'', durationMs = 1500\<rparr>,
     \<lparr>key = ''screenshots'', label = ''Auto screenshots'', durationMs = 1500\<rparr>,
     \<lparr>key = ''excel'', label = ''Build Excel report'', durationMs = 1500\<rparr>]"

text \<open>\<open>STEP_DEFINITIONS[i]\<close>: \<open>undefined\<close> (here \<open>None\<close>) outside the table.\<close>

definition stepAt :: "int \<Rightarrow> step option" where
  "stepAt i =
    (if 0 \<le> i \<and> i < int (length STEP_DEFINITIONS) then Some (STEP_DEFINITIONS ! nat i)
     else None)"

subsection \<open>State\<close>

record file_obj =
  fileName :: string
  fileSize :: nat
  contentType :: string

text \<open>
  A requested animation frame is its id and the closure of \<open>tick\<close> it will run; the
  closure has captured \<open>currentStepIndex\<close> and \<open>step\<close> of the render whose effect made it.
\<close>

type_synonym frame = "nat \<times> int \<times> step"

record app_state =
  file' :: "file_obj option"
  errorMessage :: string
  processing :: bool
  paused :: bool
  currentStepIndex :: int
  stepProgress :: real
  timerRef :: "nat option"
  stepStartRef :: real
  elapsedRef :: real
  pendingFrames :: "frame list"
  nextFrameId :: nat

text \<open>The state at mount: the \<open>useState\<close> and \<open>useRef\<close> initial values, no frame requested.\<close>

definition initialState :: app_state where
  "initialState =
    \<lparr>file' = None, errorMessage = [], processing = False, paused = False,
     currentStepIndex = - 1, stepProgress = 0, timerRef = None, stepStartRef = 0,
     elapsedRef = 0, pendingFrames = [], nextFrameId = 1\<rparr>"

subsection \<open>The browser's animation frames\<close>

text \<open>\<open>timerRef.current = requestAnimationFrame(tick)\<close>, for the closure \<open>(ci, st)\<close>.\<close>

definition requestAnimationFrame :: "int \<Rightarrow> step \<Rightarrow> app_state \<Rightarrow> app_state" where
  "requestAnimationFrame ci st s =
    s\<lparr>pendingFrames := pendingFrames s @ [(nextFrameId s, ci, st)],
      timerRef := Some (nextFrameId s),
      nextFrameId := nextFrameId s + 1\<rparr>"

text \<open>
  \<open>if (timerRef.current) cancelAnimationFrame(timerRef.current)\<close>: \<open>null\<close> and \<open>0\<close> are
  falsy; cancelling an id that is not pending does nothing.
\<close>

definition cancelTimer :: "app_state \<Rightarrow> app_state" where
  "cancelTimer s =
    (case timerRef s of
       None \<Rightarrow> s
     | Some i \<Rightarrow>
         if i = 0 then s
         else s\<lparr>pendingFrames := filter (\<lambda>fr. fst fr \<noteq> i) (pendingFrames s)\<rparr>)"

subsection \<open>Queries\<close>

text \<open>The body of the \<open>useMemo\<close> of \<open>overallProgress\<close>, for a stage table \<open>steps\<close>.\<close>

definition overallProgress_for :: "step list \<Rightarrow> app_state \<Rightarrow> real" where
  "overallProgress_for steps s =
    (let totalSteps = real (length steps);
         completedSteps = max 0 (real_of_int (currentStepIndex s));
         perStepWeight = 100 / totalSteps;
         completedPct = completedSteps * perStepWeight;
         activePct = (stepProgress s / 100) * perStepWeight
     in min 100 (max 0 (completedPct + activePct)))"

definition overallProgress :: "app_state \<Rightarrow> real" where
  "overallProgress s = overallProgress_for STEP_DEFINITIONS s"

text \<open>The formula of the specification, to be compared with the code's.\<close>

definition overallProgress_spec :: "nat \<Rightarrow> int \<Rightarrow> real \<Rightarrow> real" where
  "overallProgress_spec N idx pct =
    min 100 (max 0 (real_of_int (max 0 idx) * (100 / real N) + (pct / 100) * (100 / real N)))"

datatype step_status = Idle | Pending | Active | PausedStep | Done

definition stepStatus :: "app_state \<Rightarrow> int \<Rightarrow> step_status" where
  "stepStatus s index =
    (if currentStepIndex s = - 1 then Idle
     else if index < currentStepIndex s then Done
     else if index = currentStepIndex s
       then (if processing s then (if paused s then PausedStep else Active) else Done)
     else Pending)"

text \<open>
  The code has no status cell. The four statuses of the specification are read off the
  cells the way \<open>stepStatus\<close> reads them at the current index: idle is \<open>NotStarted\<close>,
  active is \<open>Running\<close>, paused is \<open>Paused\<close>, done is \<open>Completed\<close>.
\<close>

datatype status = NotStarted | Running | Paused | Completed

definition status :: "app_state \<Rightarrow> status" where
  "status s =
    (if currentStepIndex s = - 1 then NotStarted
     else if processing s then (if paused s then Paused else Running)
     else Completed)"

text \<open>The \<open>disabled\<close> attributes of the four buttons.\<close>

definition runDisabled :: "app_state \<Rightarrow> bool" where
  "runDisabled s = (file' s = None \<or> processing s)"

definition pauseDisabled :: "app_state \<Rightarrow> bool" where
  "pauseDisabled s = (\<not> processing s \<or> paused s)"

definition resumeDisabled :: "app_state \<Rightarrow> bool" where
  "resumeDisabled s = (\<not> processing s \<or> \<not> paused s)"

definition resetDisabled :: "app_state \<Rightarrow> bool" where
  "resetDisabled s = (file' s = None \<and> \<not> processing s \<and> currentStepIndex s = - 1)"

subsection \<open>Handlers\<close>

definition startProcessing :: "real \<Rightarrow> app_state \<Rightarrow> app_state" where
  "startProcessing now s =
    (if file' s = None then s
     else s\<lparr>processing := True, paused := False, currentStepIndex := 0,
            stepProgress := 0, elapsedRef := 0, stepStartRef := now\<rparr>)"

definition pause :: "app_state \<Rightarrow> app_state" where
  "pause s = s\<lparr>paused := True\<rparr>"

definition resume :: "real \<Rightarrow> app_state \<Rightarrow> app_state" where
  "resume now s =
    (if \<not> processing s then s
     else s\<lparr>paused := False, stepStartRef := now - elapsedRef s\<rparr>)"

definition reset :: "app_state \<Rightarrow> app_state" where
  "reset s =
    (cancelTimer
      (s\<lparr>processing := False, paused := False, currentStepIndex := - 1,
         stepProgress := 0, elapsedRef := 0, stepStartRef := 0\<rparr>))
    \<lparr>errorMessage := []\<rparr>"

text \<open>\<open>handleFile\<close> without its logging and without the upload it fires and forgets.\<close>

definition handleFile :: "file_obj \<Rightarrow> app_state \<Rightarrow> app_state" where
  "handleFile picked s = reset (s\<lparr>file' := Some picked\<rparr>)"

subsection \<open>The progression effect and its tick\<close>

text \<open>
  \<open>tick\<close> as the closure over \<open>currentStepIndex = ci\<close> and \<open>step = st\<close>. It reads the clock
  at its first line (\<open>now\<close>) and once more when it moves to the next step (\<open>now2\<close>).
  \<open>setCurrentStepIndex((i) => i + 1)\<close> updates the cell's current value, while the test
  \<open>currentStepIndex + 1 < STEP_DEFINITIONS.length\<close> reads the captured one.
\<close>

definition tick :: "int \<Rightarrow> step \<Rightarrow> real \<Rightarrow> real \<Rightarrow> app_state \<Rightarrow> app_state" where
  "tick ci st now now2 s =
    (let s1 = s\<lparr>elapsedRef := now - stepStartRef s\<rparr>;
         pct = min 100 ((elapsedRef s1 / durationMs st) * 100);
         s2 = s1\<lparr>stepProgress := pct\<rparr>
     in if pct \<ge> 100 then
          (if ci + 1 < int (length STEP_DEFINITIONS)
           then s2\<lparr>currentStepIndex := currentStepIndex s2 + 1, stepProgress := 0,
                   elapsedRef := 0, stepStartRef := now2\<rparr>
           else s2\<lparr>processing := False\<rparr>)
        else requestAnimationFrame ci st s2)"

text \<open>
  The effect body up to its \<open>return\<close> of the cleanup: the two guards, then the first
  request of a frame.
\<close>

definition useEffect :: "app_state \<Rightarrow> app_state" where
  "useEffect s =
    (if \<not> processing s \<or> paused s \<or> currentStepIndex s < 0 then s
     else (case stepAt (currentStepIndex s) of
             None \<Rightarrow> s
           | Some st \<Rightarrow> requestAnimationFrame (currentStepIndex s) st s))"

text \<open>Whether the effect passed its guards in state \<open>s\<close>, and so returned a cleanup.\<close>

definition effectActive :: "app_state \<Rightarrow> bool" where
  "effectActive s =
    (processing s \<and> \<not> paused s \<and> 0 \<le> currentStepIndex s \<and> stepAt (currentStepIndex s) \<noteq> None)"

text \<open>
  The dependency array \<open>[processing, paused, currentStepIndex]\<close>. After a handler or a
  callback has run, React renders again; when a dependency has changed it runs the
  cleanup of the previous effect (if that effect returned one) and then the effect.
\<close>

definition deps :: "app_state \<Rightarrow> bool \<times> bool \<times> int" where
  "deps s = (processing s, paused s, currentStepIndex s)"

definition rerender :: "app_state \<Rightarrow> app_state \<Rightarrow> app_state" where
  "rerender old new =
    (if deps new = deps old then new
     else useEffect (if effectActive old then cancelTimer new else new))"

subsection \<open>Events\<close>

text \<open>
  What can happen to the mounted component: a file is picked, one of the four handlers
  is called (with the clock reading it takes, if any), or the browser runs the oldest
  requested animation frame (with the clock readings its \<open>tick\<close> takes). Handlers are
  callable in every state: the buttons' \<open>disabled\<close> attributes are not part of them.
\<close>

datatype event =
    FileSelected file_obj
  | RunPipeline real
  | PauseClick
  | ResumeClick real
  | ResetClick
  | Frame real real

definition runFrame :: "real \<Rightarrow> real \<Rightarrow> app_state \<Rightarrow> app_state" where
  "runFrame now now2 s =
    (case pendingFrames s of
       [] \<Rightarrow> s
     | fr # rest \<Rightarrow> tick (fst (snd fr)) (snd (snd fr)) now now2 (s\<lparr>pendingFrames := rest\<rparr>))"

fun handle :: "event \<Rightarrow> app_state \<Rightarrow> app_state" where
  "handle (FileSelected picked) s = handleFile picked s"
| "handle (RunPipeline now) s = startProcessing now s"
| "handle PauseClick s = pause s"
| "handle (ResumeClick now) s = resume now s"
| "handle ResetClick s = reset s"
| "handle (Frame now now2) s = runFrame now now2 s"

definition dispatch :: "event \<Rightarrow> app_state \<Rightarrow> app_state" where
  "dispatch ev s = rerender s (handle ev s)"

fun exec :: "app_state \<Rightarrow> event list \<Rightarrow> app_state" where
  "exec s [] = s"
| "exec s (ev # evs) = exec (dispatch ev s) evs"

text \<open>
  The states a run goes through when the browser runs one frame after the other; each
  frame comes with the two clock readings its \<open>tick\<close> may take.
\<close>

fun trace :: "app_state \<Rightarrow> (real \<times> real) list \<Rightarrow> app_state list" where
  "trace s [] = [s]"
| "trace s (t # ts) = s # trace (dispatch (Frame (fst t) (snd t)) s) ts"

text \<open>The clock readings of a list of frames, in the order they are taken.\<close>

fun readings :: "(real \<times> real) list \<Rightarrow> real list" where
  "readings [] = []"
| "readings (t # ts) = fst t # snd t # readings ts"

subsection \<open>Part count of the multipart upload\<close>

text \<open>\<open>Math.ceil(a / b)\<close> for sizes in bytes.\<close>

definition ceilDiv :: "nat \<Rightarrow> nat \<Rightarrow> nat" where
  "ceilDiv a b = nat \<lceil>real a / real b\<rceil>"

text \<open>
  The body of \<open>computePartCount\<close>, returning the final values of both of its variables
  \<open>partSize\<close> and \<open>count\<close>; the function itself returns \<open>count\<close>.
\<close>

definition partPlan :: "nat \<Rightarrow> nat \<times> nat" where
  "partPlan sizeBytes =
    (let S3_MAX_PARTS = 10000;
         partSize = 8 * 1024 * 1024;
         count = ceilDiv sizeBytes partSize
     in if count > S3_MAX_PARTS then
          (let partSize' = ceilDiv sizeBytes S3_MAX_PARTS
           in (partSize', ceilDiv sizeBytes partSize'))
        else (partSize, count))"

definition computePartCount :: "nat \<Rightarrow> nat" where
  "computePartCount sizeBytes = snd (partPlan sizeBytes)"

subsection \<open>Auxiliary notions for the proofs\<close>

text \<open>The step at a valid index, and the percentage \<open>tick\<close> computes before its \<open>Math.min\<close>.\<close>

definition stepOf :: "int \<Rightarrow> step" where
  "stepOf i = STEP_DEFINITIONS ! nat i"

definition stagePct :: "step \<Rightarrow> real \<Rightarrow> app_state \<Rightarrow> real" where
  "stagePct st now s = ((now - stepStartRef s) / durationMs st) * 100"

text \<open>
  Three facts hold in every state the component can reach. The frame queue holds exactly
  the callback \<open>timerRef\<close> names, closed over the current step, while the effect is active,
  and nothing otherwise. While a run is in progress the current index is in the table,
  and \<open>stepProgress\<close> is below 100 and is the percentage of \<open>elapsedRef\<close>. Frame ids are
  positive.
\<close>

definition queueOk :: "app_state \<Rightarrow> bool" where
  "queueOk s =
    (if effectActive s then
       timerRef s \<noteq> None \<and> timerRef s \<noteq> Some 0 \<and>
       pendingFrames s = [(the (timerRef s), currentStepIndex s, stepOf (currentStepIndex s))]
     else pendingFrames s = [])"

definition progressOk :: "app_state \<Rightarrow> bool" where
  "progressOk s =
    (stepAt (currentStepIndex s) \<noteq> None \<and> stepProgress s < 100 \<and>
     stepProgress s = (elapsedRef s / durationMs (stepOf (currentStepIndex s))) * 100)"

definition pipelineInv :: "app_state \<Rightarrow> bool" where
  "pipelineInv s = (0 < nextFrameId s \<and> queueOk s \<and> (processing s \<longrightarrow> progressOk s))"

text \<open>
  In a run driven by frames alone, with the clock at \<open>T\<close> or later from now on: while the
  run is in progress it is not paused, the stage-start reference is not after \<open>T\<close>, and the
  elapsed time stored is between 0 and \<open>T - stepStartRef\<close>; once it is over, the index is
  not \<open>-1\<close>.
\<close>

definition runInv :: "real \<Rightarrow> app_state \<Rightarrow> bool" where
  "runInv T s =
    (pipelineInv s \<and>
     (if processing s
      then \<not> paused s \<and> 0 \<le> elapsedRef s \<and> elapsedRef s \<le> T - stepStartRef s
      else currentStepIndex s \<noteq> - 1))"

text \<open>A file to pick in the examples.\<close>

definition sampleFile :: file_obj where
  "sampleFile = \<lparr>fileName = ''clip.mp4'', fileSize = 1024, contentType = ''video/mp4''\<rparr>"

subsection \<open>The clock arithmetic on IEEE doubles\<close>

text \<open>
  JavaScript numbers are IEEE 754 doubles: the result of every arithmetic operation is
  rounded to the nearest number with a significand of 53 bits, a tie going to the one
  with an even significand. \<open>fl\<close> is that rounding. The exponent range is not bounded
  here (no overflow to \<open>Infinity\<close>, no subnormal numbers), which is the arithmetic of
  doubles at the magnitudes of clock readings in milliseconds and of their differences.
\<close>

definition roundEven :: "real \<Rightarrow> int" where
  "roundEven y =
    (let f = \<lfloor>y\<rfloor> in
     if y - of_int f < 1 / 2 then f
     else if 1 / 2 < y - of_int f then f + 1
     else if even f then f else f + 1)"

definition ulp :: "real \<Rightarrow> real" where
  "ulp x = 2 powr (of_int \<lfloor>log 2 \<bar>x\<bar>\<rfloor> - 52)"

definition fl :: "real \<Rightarrow> real" where
  "fl x = (if x = 0 then 0 else of_int (roundEven (x / ulp x)) * ulp x)"

text \<open>
  \<open>resume\<close> and \<open>tick\<close> once more, with every subtraction, division and multiplication
  rounded as the code's are, and the events run with them. The statements about the
  round trip through \<open>pause\<close> and \<open>resume\<close> are about these; \<open>pct_fl\<close> is the progress
  \<open>tick\<close> computes from an elapsed time.
\<close>

definition pct_fl :: "step \<Rightarrow> real \<Rightarrow> real" where
  "pct_fl st e = min 100 (fl (fl (e / durationMs st) * 100))"

definition resume_fl :: "real \<Rightarrow> app_state \<Rightarrow> app_state" where
  "resume_fl now s =
    (if \<not> processing s then s
     else s\<lparr>paused := False, stepStartRef := fl (now - elapsedRef s)\<rparr>)"

definition tick_fl :: "int \<Rightarrow> step \<Rightarrow> real \<Rightarrow> real \<Rightarrow> app_state \<Rightarrow> app_state" where
  "tick_fl ci st now now2 s =
    (let s1 = s\<lparr>elapsedRef := fl (now - stepStartRef s)\<rparr>;
         pct = min 100 (fl (fl (elapsedRef s1 / durationMs st) * 100));
         s2 = s1\<lparr>stepProgress := pct\<rparr>
     in if pct \<ge> 100 then
          (if ci + 1 < int (length STEP_DEFINITIONS)
           then s2\<lparr>currentStepIndex := currentStepIndex s2 + 1, stepProgress := 0,
                   elapsedRef := 0, stepStartRef := now2\<rparr>
           else s2\<lparr>processing := False\<rparr>)
        else requestAnimationFrame ci st s2)"

definition runFrame_fl :: "real \<Rightarrow> real \<Rightarrow> app_state \<Rightarrow> app_state" where
  "runFrame_fl now now2 s =
    (case pendingFrames s of
       [] \<Rightarrow> s
     | fr # rest \<Rightarrow> tick_fl (fst (snd fr)) (snd (snd fr)) now now2 (s\<lparr>pendingFrames := rest\<rparr>))"

fun handle_fl :: "event \<Rightarrow> app_state \<Rightarrow> app_state" where
  "handle_fl (FileSelected picked) s = handleFile picked s"
| "handle_fl (RunPipeline now) s = startProcessing now s"
| "handle_fl PauseClick s = pause s"
| "handle_fl (ResumeClick now) s = resume_fl now s"
| "handle_fl ResetClick s = reset s"
| "handle_fl (Frame now now2) s = runFrame_fl now now2 s"

definition dispatch_fl :: "event \<Rightarrow> app_state \<Rightarrow> app_state" where
  "dispatch_fl ev s = rerender s (handle_fl ev s)"

fun exec_fl :: "app_state \<Rightarrow> event list \<Rightarrow> app_state" where
  "exec_fl s [] = s"
| "exec_fl s (ev # evs) = exec_fl (dispatch_fl ev s) evs"

text \<open>The invariant of the reachable states, for the rounded arithmetic.\<close>

definition progressOk_fl :: "app_state \<Rightarrow> bool" where
  "progressOk_fl s =
    (stepAt (currentStepIndex s) \<noteq> None \<and> stepProgress s < 100 \<and>
     stepProgress s = pct_fl (stepOf (currentStepIndex s)) (elapsedRef s))"

definition pipelineInv_fl :: "app_state \<Rightarrow> bool" where
  "pipelineInv_fl s = (0 < nextFrameId s \<and> queueOk s \<and> (processing s \<longrightarrow> progressOk_fl s))"

section \<open>Part planner\<close>

lemma ceilDiv_ge: "0 < b \<Longrightarrow> a \<le> b * ceilDiv a b"
proof -
  assume b: "0 < b"
  have "real a / real b \<le> real_of_int \<lceil>real a / real b\<rceil>" by (rule le_of_int_ceiling)
  moreover have "- 1 < real a / real b"
    by (rule less_le_trans [of _ 0]) simp_all
  ultimately have "real a / real b \<le> real (ceilDiv a b)"
    by (simp add: ceilDiv_def)
  with b have "real a \<le> real b * real (ceilDiv a b)"
    by (simp add: field_simps)
  then show ?thesis by (metis of_nat_le_iff of_nat_mult)
qed

lemma ceilDiv_le: "0 < b \<Longrightarrow> a \<le> b * k \<Longrightarrow> ceilDiv a b \<le> k"
proof -
  assume b: "0 < b" and a: "a \<le> b * k"
  from a have "real a \<le> real b * real k" by (metis of_nat_le_iff of_nat_mult)
  with b have "real a / real b \<le> real k" by (simp add: field_simps)
  then show ?thesis by (simp add: ceilDiv_def ceiling_le_iff)
qed

lemma ceilDiv_pos: "0 < b \<Longrightarrow> 0 < a \<Longrightarrow> 0 < ceilDiv a b"
  by (simp add: ceilDiv_def)

lemma partPlan_bounds:
  assumes "1 \<le> sizeBytes"
  shows "1 \<le> snd (partPlan sizeBytes) \<and> snd (partPlan sizeBytes) \<le> 10000
       \<and> sizeBytes \<le> fst (partPlan sizeBytes) * snd (partPlan sizeBytes)"
proof (cases "10000 < ceilDiv sizeBytes (8 * 1024 * 1024)")
  case False
  have "0 < ceilDiv sizeBytes (8 * 1024 * 1024)"
    using assms by (intro ceilDiv_pos) simp_all
  moreover have "sizeBytes \<le> (8 * 1024 * 1024) * ceilDiv sizeBytes (8 * 1024 * 1024)"
    by (rule ceilDiv_ge) simp
  ultimately show ?thesis using False
    by (simp add: partPlan_def Let_def)
next
  case True
  define p where "p = ceilDiv sizeBytes 10000"
  have p_pos: "0 < p" unfolding p_def using assms by (intro ceilDiv_pos) simp_all
  have cover: "sizeBytes \<le> 10000 * p" unfolding p_def by (rule ceilDiv_ge) simp
  have "0 < ceilDiv sizeBytes p" using assms p_pos by (intro ceilDiv_pos) simp_all
  moreover have "ceilDiv sizeBytes p \<le> 10000"
    using p_pos cover by (intro ceilDiv_le) (simp_all add: mult.commute)
  moreover have "sizeBytes \<le> p * ceilDiv sizeBytes p"
    using p_pos by (rule ceilDiv_ge)
  ultimately show ?thesis using True
    by (simp add: partPlan_def Let_def p_def)
qed

lemma partPlan_20000_chunks: "partPlan (8 * 1024 * 1024 * 20000) = (16777216, 10000)"
  by (simp add: partPlan_def ceilDiv_def)

text \<open>
  C7. For every \<open>sizeBytes \<ge> 1\<close> the part count returned by \<open>computePartCount\<close> is at
  least 1 and at most 10000, and the part size the function ends with, times that count,
  covers \<open>sizeBytes\<close>. The witness is the size of 20000 parts of 8 MiB: the part size is
  doubled and the count is exactly 10000.
\<close>

theorem computePartCount_bounds:
  "1 \<le> sizeBytes \<Longrightarrow>
     1 \<le> computePartCount sizeBytes \<and> computePartCount sizeBytes \<le> 10000
     \<and> sizeBytes \<le> fst (partPlan sizeBytes) * computePartCount sizeBytes"
  unfolding computePartCount_def by (rule partPlan_bounds)

theorem computePartCount_bounds_witness:
  "(1::nat) \<le> 8 * 1024 * 1024 * 20000
   \<and> computePartCount (8 * 1024 * 1024 * 20000) = 10000
   \<and> computePartCount (8 * 1024 * 1024 * 20000) \<le> 10000
   \<and> fst (partPlan (8 * 1024 * 1024 * 20000)) = 16777216
   \<and> (8 * 1024 * 1024 * 20000 :: nat)
       \<le> fst (partPlan (8 * 1024 * 1024 * 20000)) * computePartCount (8 * 1024 * 1024 * 20000)"
proof -
  have h: "(1::nat) \<le> 8 * 1024 * 1024 * 20000" by simp
  show ?thesis
    using computePartCount_bounds [OF h] partPlan_20000_chunks
    by (simp add: computePartCount_def)
qed

section \<open>Overall progress\<close>

lemma length_STEP_DEFINITIONS: "length STEP_DEFINITIONS = 6"
  by (simp add: STEP_DEFINITIONS_def)

text \<open>
  C5. \<open>overallProgress\<close> is the specification's formula at \<open>N\<close> = the number of stages,
  which is 6; it does not change when the stages' durations are replaced by any others
  (every stage weighs \<open>100 / N\<close>); and at \<open>currentStepIndex = 1\<close>, \<open>stepProgress = 0\<close> it
  is \<open>100 / 6\<close>.
\<close>

theorem overallProgress_formula:
  "overallProgress s =
     overallProgress_spec (length STEP_DEFINITIONS) (currentStepIndex s) (stepProgress s)
   \<and> length STEP_DEFINITIONS = 6
   \<and> overallProgress_for (map (\<lambda>st. st\<lparr>durationMs := d st\<rparr>) steps) s
       = overallProgress_for steps s
   \<and> overallProgress (s\<lparr>currentStepIndex := 1, stepProgress := 0\<rparr>) = 100 / 6"
proof -
  have "overallProgress s =
     overallProgress_spec (length STEP_DEFINITIONS) (currentStepIndex s) (stepProgress s)"
    by (simp add: overallProgress_def overallProgress_for_def overallProgress_spec_def Let_def)
  moreover have "overallProgress_for (map (\<lambda>st. st\<lparr>durationMs := d st\<rparr>) steps) s
       = overallProgress_for steps s"
    by (simp add: overallProgress_for_def)
  moreover have "overallProgress (s\<lparr>currentStepIndex := 1, stepProgress := 0\<rparr>) = 100 / 6"
    by (simp add: overallProgress_def overallProgress_for_def length_STEP_DEFINITIONS)
  ultimately show ?thesis using length_STEP_DEFINITIONS by simp
qed

theorem overallProgress_formula_witness:
  "overallProgress (initialState\<lparr>currentStepIndex := 3, stepProgress := 50\<rparr>) = 175 / 3
   \<and> overallProgress_spec 6 3 50 = 175 / 3"
  using overallProgress_formula [of "initialState\<lparr>currentStepIndex := 3, stepProgress := 50\<rparr>"]
  by (simp add: overallProgress_spec_def)

section \<open>Reachable states\<close>

lemma stepAt_Some_iff: "(stepAt i = Some st) = (0 \<le> i \<and> i < 6 \<and> st = stepOf i)"
  by (auto simp: stepAt_def stepOf_def length_STEP_DEFINITIONS)

lemma stepAt_None_iff: "(stepAt i = None) = (i < 0 \<or> 6 \<le> i)"
  by (auto simp: stepAt_def length_STEP_DEFINITIONS)

lemma cancelTimer_fields [simp]:
  "file' (cancelTimer s) = file' s"
  "errorMessage (cancelTimer s) = errorMessage s"
  "processing (cancelTimer s) = processing s"
  "paused (cancelTimer s) = paused s"
  "currentStepIndex (cancelTimer s) = currentStepIndex s"
  "stepProgress (cancelTimer s) = stepProgress s"
  "timerRef (cancelTimer s) = timerRef s"
  "stepStartRef (cancelTimer s) = stepStartRef s"
  "elapsedRef (cancelTimer s) = elapsedRef s"
  "nextFrameId (cancelTimer s) = nextFrameId s"
  by (simp_all add: cancelTimer_def split: option.split)

lemma cancelTimer_nil [simp]: "pendingFrames s = [] \<Longrightarrow> pendingFrames (cancelTimer s) = []"
  by (simp add: cancelTimer_def split: option.split)

lemma useEffect_fields [simp]:
  "file' (useEffect s) = file' s"
  "errorMessage (useEffect s) = errorMessage s"
  "processing (useEffect s) = processing s"
  "paused (useEffect s) = paused s"
  "currentStepIndex (useEffect s) = currentStepIndex s"
  "stepProgress (useEffect s) = stepProgress s"
  "stepStartRef (useEffect s) = stepStartRef s"
  "elapsedRef (useEffect s) = elapsedRef s"
  by (simp_all add: useEffect_def requestAnimationFrame_def split: option.split)

lemma rerender_fields [simp]:
  "file' (rerender old new) = file' new"
  "errorMessage (rerender old new) = errorMessage new"
  "processing (rerender old new) = processing new"
  "paused (rerender old new) = paused new"
  "currentStepIndex (rerender old new) = currentStepIndex new"
  "stepProgress (rerender old new) = stepProgress new"
  "stepStartRef (rerender old new) = stepStartRef new"
  "elapsedRef (rerender old new) = elapsedRef new"
  by (simp_all add: rerender_def)

lemma rerender_same_deps: "deps new = deps old \<Longrightarrow> rerender old new = new"
  by (simp add: rerender_def)

lemma effectActive_deps: "deps a = deps b \<Longrightarrow> effectActive a = effectActive b"
  by (simp add: deps_def effectActive_def)

lemma progressOk_rerender [simp]:
  "progressOk (rerender old new) = progressOk new"
  "progressOk (useEffect s) = progressOk s"
  "progressOk (cancelTimer s) = progressOk s"
  by (simp_all add: progressOk_def)

text \<open>The effect run on an empty queue leaves the queue as the invariant wants it.\<close>

lemma useEffect_queueOk:
  assumes "pendingFrames m = []" "0 < nextFrameId m"
  shows "queueOk (useEffect m) \<and> 0 < nextFrameId (useEffect m)"
  using assms
  by (auto simp: queueOk_def useEffect_def effectActive_def requestAnimationFrame_def
      stepAt_Some_iff stepAt_None_iff split: option.splits)

lemma queueOk_cancel:
  assumes "queueOk old" "timerRef new = timerRef old" "pendingFrames new = pendingFrames old"
  shows "pendingFrames (if effectActive old then cancelTimer new else new) = []"
  using assms
  by (auto simp: queueOk_def cancelTimer_def split: option.splits if_splits)

lemma rerender_inv_fresh:
  assumes "pendingFrames m = []" "0 < nextFrameId m" "processing m \<longrightarrow> progressOk m"
  shows "pipelineInv (useEffect m)"
  using useEffect_queueOk [OF assms(1,2)] assms(3)
  by (simp add: pipelineInv_def)

text \<open>A handler that leaves the queue, the timer and the id counter alone.\<close>

lemma rerender_inv_keep:
  assumes inv: "pipelineInv old"
    and same: "timerRef new = timerRef old" "pendingFrames new = pendingFrames old"
      "nextFrameId new = nextFrameId old"
    and prog: "processing new \<longrightarrow> progressOk new"
  shows "pipelineInv (rerender old new)"
proof (cases "deps new = deps old")
  case True
  then have "queueOk new = queueOk old"
    using same by (simp add: queueOk_def effectActive_deps [OF True] deps_def)
  with inv same prog True show ?thesis
    by (simp add: rerender_same_deps pipelineInv_def)
next
  case False
  let ?m = "if effectActive old then cancelTimer new else new"
  have "pendingFrames ?m = []"
    using inv same by (intro queueOk_cancel) (simp_all add: pipelineInv_def)
  moreover have "0 < nextFrameId ?m" using inv same by (simp add: pipelineInv_def)
  moreover have "processing ?m \<longrightarrow> progressOk ?m" using prog by simp
  ultimately have "pipelineInv (useEffect ?m)" by (rule rerender_inv_fresh)
  with False show ?thesis by (simp add: rerender_def)
qed

text \<open>A handler or callback that leaves the queue empty.\<close>

lemma rerender_inv_empty:
  assumes empty: "pendingFrames new = []"
    and pos: "0 < nextFrameId new"
    and changed: "deps new \<noteq> deps old \<or> \<not> effectActive new"
    and prog: "processing new \<longrightarrow> progressOk new"
  shows "pipelineInv (rerender old new)"
proof (cases "deps new = deps old")
  case True
  with changed empty pos prog show ?thesis
    by (simp add: rerender_same_deps pipelineInv_def queueOk_def)
next
  case False
  let ?m = "if effectActive old then cancelTimer new else new"
  have "pendingFrames ?m = []" using empty by simp
  moreover have "0 < nextFrameId ?m" using pos by simp
  moreover have "processing ?m \<longrightarrow> progressOk ?m" using prog by simp
  ultimately have "pipelineInv (useEffect ?m)" by (rule rerender_inv_fresh)
  with False show ?thesis by (simp add: rerender_def)
qed

lemma inv_initial: "pipelineInv initialState"
  by (simp add: pipelineInv_def queueOk_def effectActive_def initialState_def)

lemma stepAt_0: "stepAt 0 = Some (stepOf 0)"
  by (simp add: stepAt_Some_iff)

lemma inv_start: "pipelineInv s \<Longrightarrow> pipelineInv (dispatch (RunPipeline now) s)"
  unfolding dispatch_def handle.simps
  by (rule rerender_inv_keep) (auto simp: startProcessing_def progressOk_def stepAt_0 pipelineInv_def)

lemma inv_pause: "pipelineInv s \<Longrightarrow> pipelineInv (dispatch PauseClick s)"
  unfolding dispatch_def handle.simps
  by (rule rerender_inv_keep) (auto simp: pause_def progressOk_def pipelineInv_def)

lemma inv_resume: "pipelineInv s \<Longrightarrow> pipelineInv (dispatch (ResumeClick now) s)"
  unfolding dispatch_def handle.simps
  by (rule rerender_inv_keep) (auto simp: resume_def progressOk_def pipelineInv_def)

lemma reset_empty: "queueOk s \<Longrightarrow> pendingFrames (reset s) = []"
  by (auto simp: reset_def queueOk_def cancelTimer_def split: option.splits if_splits)

lemma reset_fields [simp]:
  "processing (reset s) = False" "paused (reset s) = False" "currentStepIndex (reset s) = - 1"
  "stepProgress (reset s) = 0" "elapsedRef (reset s) = 0" "stepStartRef (reset s) = 0"
  "nextFrameId (reset s) = nextFrameId s" "file' (reset s) = file' s"
  "errorMessage (reset s) = []" "timerRef (reset s) = timerRef s"
  by (simp_all add: reset_def)

lemma inv_reset: "pipelineInv s \<Longrightarrow> pipelineInv (dispatch ResetClick s)"
  unfolding dispatch_def handle.simps
  by (rule rerender_inv_empty) (simp_all add: reset_empty pipelineInv_def effectActive_def)

lemma queueOk_file: "queueOk (s\<lparr>file' := f\<rparr>) = queueOk s"
  by (auto simp: queueOk_def effectActive_def)

lemma inv_file: "pipelineInv s \<Longrightarrow> pipelineInv (dispatch (FileSelected f) s)"
  unfolding dispatch_def handle.simps handleFile_def
  by (rule rerender_inv_empty) (simp_all add: reset_empty queueOk_file pipelineInv_def effectActive_def)

lemma tick_continue:
  "stagePct st now s < 100 \<Longrightarrow>
   tick ci st now now2 s =
     requestAnimationFrame ci st
       (s\<lparr>elapsedRef := now - stepStartRef s, stepProgress := stagePct st now s\<rparr>)"
  by (simp add: tick_def stagePct_def Let_def)

lemma tick_advance:
  "100 \<le> stagePct st now s \<Longrightarrow> ci + 1 < 6 \<Longrightarrow>
   tick ci st now now2 s =
     s\<lparr>currentStepIndex := currentStepIndex s + 1, stepProgress := 0, elapsedRef := 0,
       stepStartRef := now2\<rparr>"
  by (simp add: tick_def stagePct_def Let_def length_STEP_DEFINITIONS)

lemma tick_finish:
  "100 \<le> stagePct st now s \<Longrightarrow> \<not> ci + 1 < 6 \<Longrightarrow>
   tick ci st now now2 s =
     s\<lparr>elapsedRef := now - stepStartRef s, stepProgress := 100, processing := False\<rparr>"
  by (simp add: tick_def stagePct_def Let_def length_STEP_DEFINITIONS)

lemma queueOk_active:
  assumes "queueOk s" "pendingFrames s = fr # rest"
  shows "effectActive s \<and> rest = [] \<and> fst (snd fr) = currentStepIndex s
       \<and> stepAt (currentStepIndex s) = Some (snd (snd fr))"
  using assms by (auto simp: queueOk_def effectActive_def stepAt_Some_iff split: if_splits)

lemma inv_frame: "pipelineInv s \<Longrightarrow> pipelineInv (dispatch (Frame now now2) s)"
proof (cases "pendingFrames s")
  case Nil
  assume "pipelineInv s"
  with Nil show ?thesis by (simp add: dispatch_def runFrame_def rerender_same_deps)
next
  case (Cons fr rest)
  assume I: "pipelineInv s"
  define idx where "idx = currentStepIndex s"
  define st where "st = snd (snd fr)"
  define s0 where "s0 = s\<lparr>pendingFrames := []\<rparr>"
  from I Cons have act: "effectActive s" and rest: "rest = []" and ci: "fst (snd fr) = idx"
    and st: "stepAt idx = Some st"
    using queueOk_active [of s fr rest] by (simp_all add: pipelineInv_def idx_def st_def)
  have run: "runFrame now now2 s = tick idx st now now2 s0"
    using Cons rest ci by (simp add: runFrame_def st_def s0_def)
  from I have pos: "0 < nextFrameId s" by (simp add: pipelineInv_def)
  consider (cont) "stagePct st now s0 < 100"
    | (adv) "100 \<le> stagePct st now s0" "idx + 1 < 6"
    | (fin) "100 \<le> stagePct st now s0" "\<not> idx + 1 < 6"
    by linarith
  then show ?thesis
  proof cases
    case cont
    let ?new = "tick idx st now now2 s0"
    have new: "?new = requestAnimationFrame idx st
        (s0\<lparr>elapsedRef := now - stepStartRef s0, stepProgress := stagePct st now s0\<rparr>)"
      using cont by (rule tick_continue)
    have d: "deps ?new = deps s"
      unfolding new by (simp add: requestAnimationFrame_def deps_def s0_def)
    have "pipelineInv ?new"
      unfolding new using act st pos cont
      by (simp add: pipelineInv_def queueOk_def progressOk_def effectActive_def
          requestAnimationFrame_def s0_def idx_def stagePct_def stepAt_Some_iff)
    then show ?thesis by (simp add: dispatch_def run rerender_same_deps [OF d])
  next
    case adv
    let ?new = "tick idx st now now2 s0"
    have new: "?new = s0\<lparr>currentStepIndex := currentStepIndex s0 + 1, stepProgress := 0,
        elapsedRef := 0, stepStartRef := now2\<rparr>"
      using adv by (rule tick_advance)
    from st adv(2) have "stepAt (idx + 1) \<noteq> None"
      by (simp add: stepAt_Some_iff stepAt_None_iff)
    then have "pipelineInv (rerender s ?new)"
      unfolding new using pos
      by (intro rerender_inv_empty) (auto simp: s0_def deps_def progressOk_def idx_def)
    then show ?thesis by (simp add: dispatch_def run)
  next
    case fin
    let ?new = "tick idx st now now2 s0"
    have new: "?new = s0\<lparr>elapsedRef := now - stepStartRef s0, stepProgress := 100,
        processing := False\<rparr>"
      using fin by (rule tick_finish)
    have "pipelineInv (rerender s ?new)"
      unfolding new using pos
      by (intro rerender_inv_empty) (simp_all add: s0_def effectActive_def)
    then show ?thesis by (simp add: dispatch_def run)
  qed
qed

lemma inv_dispatch: "pipelineInv s \<Longrightarrow> pipelineInv (dispatch ev s)"
  by (cases ev) (simp_all add: inv_file inv_start inv_pause inv_resume inv_reset inv_frame)

lemma inv_exec: "pipelineInv s \<Longrightarrow> pipelineInv (exec s evs)"
  by (induction evs arbitrary: s) (simp_all add: inv_dispatch)

lemma inv_reachable: "pipelineInv (exec initialState evs)"
  by (rule inv_exec [OF inv_initial])

lemma stagePct_queue [simp]: "stagePct st now (s\<lparr>pendingFrames := q\<rparr>) = stagePct st now s"
  by (simp add: stagePct_def)

lemma cancelTimer_empty: "pendingFrames s = [] \<Longrightarrow> cancelTimer s = s"
  by (cases s) (simp add: cancelTimer_def split: option.split)

lemma frame_continue:
  assumes "pendingFrames s = [(i, ci, st)]" "stagePct st now s < 100"
  shows "dispatch (Frame now now2) s =
    requestAnimationFrame ci st
      (s\<lparr>pendingFrames := [], elapsedRef := now - stepStartRef s,
         stepProgress := stagePct st now s\<rparr>)"
proof -
  have "runFrame now now2 s = requestAnimationFrame ci st
      (s\<lparr>pendingFrames := [], elapsedRef := now - stepStartRef s,
         stepProgress := stagePct st now s\<rparr>)"
    using assms by (simp add: runFrame_def tick_continue)
  moreover have "deps \<dots> = deps s" by (simp add: deps_def requestAnimationFrame_def)
  ultimately show ?thesis by (simp add: dispatch_def rerender_same_deps)
qed

lemma frame_finish:
  assumes "pendingFrames s = [(i, ci, st)]" "100 \<le> stagePct st now s" "\<not> ci + 1 < 6"
  shows "dispatch (Frame now now2) s =
    s\<lparr>pendingFrames := [], elapsedRef := now - stepStartRef s, stepProgress := 100,
      processing := False\<rparr>"
proof -
  have run: "runFrame now now2 s = s\<lparr>pendingFrames := [], elapsedRef := now - stepStartRef s,
      stepProgress := 100, processing := False\<rparr>"
    using assms by (simp add: runFrame_def tick_finish)
  show ?thesis
    by (simp add: dispatch_def run rerender_def useEffect_def cancelTimer_empty)
qed

lemma frame_advance:
  assumes "pendingFrames s = [(i, ci, st)]" "100 \<le> stagePct st now s" "ci + 1 < 6"
    and "processing s" "\<not> paused s" "0 \<le> currentStepIndex s" "currentStepIndex s + 1 < 6"
  shows "dispatch (Frame now now2) s =
    requestAnimationFrame (currentStepIndex s + 1) (stepOf (currentStepIndex s + 1))
      (s\<lparr>pendingFrames := [], currentStepIndex := currentStepIndex s + 1, stepProgress := 0,
         elapsedRef := 0, stepStartRef := now2\<rparr>)"
proof -
  have run: "runFrame now now2 s = s\<lparr>pendingFrames := [],
      currentStepIndex := currentStepIndex s + 1, stepProgress := 0,
      elapsedRef := 0, stepStartRef := now2\<rparr>"
    using assms(1-3) by (simp add: runFrame_def tick_advance)
  have st: "stepAt (currentStepIndex s + 1) = Some (stepOf (currentStepIndex s + 1))"
    using assms(6,7) by (simp add: stepAt_Some_iff)
  show ?thesis using assms(4-7)
    by (simp add: dispatch_def run rerender_def deps_def useEffect_def cancelTimer_empty st)
qed

lemma running_facts:
  assumes "pipelineInv s" "status s = Running"
  shows "processing s" "\<not> paused s" "0 \<le> currentStepIndex s" "currentStepIndex s < 6"
    "stepProgress s < 100"
    "stepProgress s = (elapsedRef s / durationMs (stepOf (currentStepIndex s))) * 100"
    "pendingFrames s = [(the (timerRef s), currentStepIndex s, stepOf (currentStepIndex s))]"
proof -
  from assms(2) show p: "processing s" and q: "\<not> paused s"
    by (simp_all add: status_def split: if_splits)
  with assms(1) have ok: "progressOk s" by (simp add: pipelineInv_def)
  then show i: "0 \<le> currentStepIndex s" "currentStepIndex s < 6"
    by (auto simp: progressOk_def stepAt_Some_iff)
  from ok show "stepProgress s < 100"
    "stepProgress s = (elapsedRef s / durationMs (stepOf (currentStepIndex s))) * 100"
    by (simp_all add: progressOk_def)
  from p q i have "effectActive s" by (simp add: effectActive_def stepAt_None_iff)
  with assms(1) show
    "pendingFrames s = [(the (timerRef s), currentStepIndex s, stepOf (currentStepIndex s))]"
    by (simp add: pipelineInv_def queueOk_def)
qed

lemma stepAt_valid: "0 \<le> i \<Longrightarrow> i < 6 \<Longrightarrow> stepAt i = Some (stepOf i)"
  by (simp add: stepAt_Some_iff)

lemma durations:
  "durationMs (stepOf 0) = 2000" "durationMs (stepOf 1) = 3000" "durationMs (stepOf 2) = 2000"
  "durationMs (stepOf 3) = 1500" "durationMs (stepOf 4) = 1500" "durationMs (stepOf 5) = 1500"
  by (simp_all add: stepOf_def STEP_DEFINITIONS_def)

lemmas evals = dispatch_def rerender_def deps_def effectActive_def useEffect_def cancelTimer_def
  requestAnimationFrame_def handleFile_def reset_def startProcessing_def pause_def resume_def
  runFrame_def tick_def Let_def stepAt_valid durations initialState_def status_def
  length_STEP_DEFINITIONS

lemma started_state:
  "exec initialState [FileSelected sampleFile, RunPipeline 0] =
    \<lparr>file' = Some sampleFile, errorMessage = [], processing = True, paused = False,
     currentStepIndex = 0, stepProgress = 0, timerRef = Some 1, stepStartRef = 0,
     elapsedRef = 0, pendingFrames = [(1, 0, stepOf 0)], nextFrameId = 2\<rparr>"
  by (simp add: evals)




lemma ticked_state:
  "exec initialState [FileSelected sampleFile, RunPipeline 0, Frame 480 480] =
    \<lparr>file' = Some sampleFile, errorMessage = [], processing = True, paused = False,
     currentStepIndex = 0, stepProgress = 24, timerRef = Some 2, stepStartRef = 0,
     elapsedRef = 480, pendingFrames = [(2, 0, stepOf 0)], nextFrameId = 3\<rparr>"
  by (simp add: evals)

section \<open>Calls outside their state\<close>

lemma not_processing_iff:
  assumes "pipelineInv s"
  shows "(status s = NotStarted \<or> status s = Completed) = (\<not> processing s)"
  using assms by (auto simp: status_def pipelineInv_def progressOk_def stepAt_None_iff)

lemma dispatch_noop: "handle ev s = s \<Longrightarrow> dispatch ev s = s"
  by (simp add: dispatch_def rerender_same_deps)

text \<open>
  C3 as stated fails twice. In a running state (not paused) \<open>resume\<close> at 500 changes the
  stage-start reference. In the initial state (not running) \<open>pause\<close> sets the \<open>paused\<close>
  cell.
\<close>

theorem invalid_calls_counterexample:
  "status (exec initialState [FileSelected sampleFile, RunPipeline 0]) \<noteq> Paused
   \<and> resume 500 (exec initialState [FileSelected sampleFile, RunPipeline 0])
       \<noteq> exec initialState [FileSelected sampleFile, RunPipeline 0]
   \<and> status initialState \<noteq> Running
   \<and> pause initialState \<noteq> initialState"
  unfolding started_state by (simp add: status_def resume_def pause_def initialState_def)

text \<open>
  C3, as the code has it, in every reachable state. \<open>startProcessing\<close> with no file
  selected changes nothing. \<open>resume\<close> changes nothing when no run is in progress (status
  \<open>NotStarted\<close> or \<open>Completed\<close>). \<open>pause\<close> changes nothing when the status is \<open>Paused\<close>;
  when the status is \<open>NotStarted\<close> or \<open>Completed\<close> it sets the \<open>paused\<close> cell and nothing
  else, and the status stays what it was. \<open>resume\<close> while \<open>Running\<close> is not a no-op: it
  sets the stage-start reference to \<open>now - elapsedRef\<close> and changes nothing else. No
  handler has an error exit: each is a total function to the next state.
\<close>

theorem invalid_calls:
  assumes "s = exec initialState evs"
  shows "(file' s = None \<longrightarrow> startProcessing now s = s \<and> dispatch (RunPipeline now) s = s)
    \<and> (status s = NotStarted \<or> status s = Completed \<longrightarrow>
         resume now s = s \<and> dispatch (ResumeClick now) s = s)
    \<and> (status s = Paused \<longrightarrow> pause s = s \<and> dispatch PauseClick s = s)
    \<and> (status s = NotStarted \<or> status s = Completed \<longrightarrow>
         pause s = s\<lparr>paused := True\<rparr> \<and> status (pause s) = status s)
    \<and> (status s = Running \<longrightarrow> resume now s = s\<lparr>stepStartRef := now - elapsedRef s\<rparr>)"
proof -
  have I: "pipelineInv s" unfolding assms by (rule inv_reachable)
  have a: "startProcessing now s = s \<and> dispatch (RunPipeline now) s = s" if "file' s = None"
    using that by (simp add: dispatch_noop startProcessing_def)
  have b: "resume now s = s \<and> dispatch (ResumeClick now) s = s"
    if "status s = NotStarted \<or> status s = Completed"
  proof -
    from that have "\<not> processing s" by (simp add: not_processing_iff [OF I])
    then show ?thesis by (simp add: dispatch_noop resume_def)
  qed
  have c: "pause s = s \<and> dispatch PauseClick s = s" if "status s = Paused"
  proof -
    from that have "paused s" by (simp add: status_def split: if_splits)
    then have "pause s = s" by (cases s) (simp add: pause_def)
    then show ?thesis by (simp add: dispatch_noop)
  qed
  have d: "pause s = s\<lparr>paused := True\<rparr> \<and> status (pause s) = status s"
    if "status s = NotStarted \<or> status s = Completed"
  proof -
    from that have "\<not> processing s" by (simp add: not_processing_iff [OF I])
    then show ?thesis by (simp add: pause_def status_def)
  qed
  have e: "resume now s = s\<lparr>stepStartRef := now - elapsedRef s\<rparr>" if "status s = Running"
  proof -
    from that have "processing s" "\<not> paused s" by (simp_all add: status_def split: if_splits)
    then show ?thesis by (cases s) (simp add: resume_def)
  qed
  from a b c d e show ?thesis by blast
qed

theorem invalid_calls_witness:
  "file' initialState = None \<and> status initialState = NotStarted
   \<and> startProcessing 7 initialState = initialState
   \<and> resume 7 initialState = initialState
   \<and> pause initialState = initialState\<lparr>paused := True\<rparr>
   \<and> status (exec initialState [FileSelected sampleFile, RunPipeline 0]) = Running
   \<and> stepStartRef (resume 500 (exec initialState [FileSelected sampleFile, RunPipeline 0])) = 500"
proof -
  have i: "initialState = exec initialState []" by simp
  have r: "status (exec initialState [FileSelected sampleFile, RunPipeline 0]) = Running"
    unfolding started_state by (simp add: status_def)
  have n: "status initialState = NotStarted" "file' initialState = None"
    by (simp_all add: status_def initialState_def)
  show ?thesis
    using invalid_calls [OF i, of 7] invalid_calls [OF refl, of "[FileSelected sampleFile, RunPipeline 0]" 500] r n
    unfolding started_state by simp
qed

text \<open>
  C4 as stated fails: in a running state with a file selected \<open>startProcessing\<close> at 100
  restarts the run, with the stage-start reference at 100.
\<close>

theorem start_guard_counterexample:
  "status (exec initialState [FileSelected sampleFile, RunPipeline 0]) = Running
   \<and> startProcessing 100 (exec initialState [FileSelected sampleFile, RunPipeline 0])
       \<noteq> exec initialState [FileSelected sampleFile, RunPipeline 0]
   \<and> stepStartRef (startProcessing 100 (exec initialState [FileSelected sampleFile, RunPipeline 0]))
       = 100"
  unfolding started_state by (simp add: status_def startProcessing_def)

text \<open>
  C4, as the code has it. The only guard of \<open>startProcessing\<close> is the file selection:
  with no file it changes nothing, and with a file it restarts the run in every status
  (\<open>processing\<close> set, \<open>paused\<close> cleared, index, progress and elapsed time 0, reference
  \<open>now\<close>; the status is then \<open>Running\<close>). A start during a run is prevented outside the
  handler only: the Run button is disabled whenever the status is \<open>Running\<close> or \<open>Paused\<close>.
\<close>

theorem start_guard:
  "(file' s = None \<longrightarrow> startProcessing now s = s)
   \<and> (file' s \<noteq> None \<longrightarrow>
        startProcessing now s =
          s\<lparr>processing := True, paused := False, currentStepIndex := 0, stepProgress := 0,
            elapsedRef := 0, stepStartRef := now\<rparr>
        \<and> status (startProcessing now s) = Running)
   \<and> (status s = Running \<or> status s = Paused \<longrightarrow> runDisabled s)"
  by (auto simp: startProcessing_def status_def runDisabled_def split: if_splits)

theorem start_guard_witness:
  "file' (exec initialState [FileSelected sampleFile, RunPipeline 0, Frame 480 480]) \<noteq> None
   \<and> status (exec initialState [FileSelected sampleFile, RunPipeline 0, Frame 480 480]) = Running
   \<and> runDisabled (exec initialState [FileSelected sampleFile, RunPipeline 0, Frame 480 480])
   \<and> stepProgress (startProcessing 600
        (exec initialState [FileSelected sampleFile, RunPipeline 0, Frame 480 480])) = 0
   \<and> stepStartRef (startProcessing 600
        (exec initialState [FileSelected sampleFile, RunPipeline 0, Frame 480 480])) = 600"
proof -
  have r: "status (exec initialState [FileSelected sampleFile, RunPipeline 0, Frame 480 480])
      = Running"
    unfolding ticked_state by (simp add: status_def)
  show ?thesis
    using r start_guard [of "exec initialState [FileSelected sampleFile, RunPipeline 0, Frame 480 480]" 600]
    unfolding ticked_state by simp
qed

section \<open>Stage durations and the empty file\<close>

lemma durations_positive: "stepAt i = Some st \<Longrightarrow> 0 < durationMs st"
proof -
  assume "stepAt i = Some st"
  then have "st \<in> set STEP_DEFINITIONS"
    by (auto simp: stepAt_def split: if_splits)
  then show ?thesis by (auto simp: STEP_DEFINITIONS_def)
qed

lemma computePartCount_zero: "computePartCount 0 = 0"
  by (simp add: computePartCount_def partPlan_def ceilDiv_def)

section \<open>Reset\<close>

lemma frame_empty: "pendingFrames s = [] \<Longrightarrow> dispatch (Frame now now2) s = s"
  by (simp add: dispatch_noop runFrame_def)

lemma frames_empty:
  "pendingFrames s = [] \<Longrightarrow> exec s (map (\<lambda>t. Frame (fst t) (snd t)) ts) = s"
  by (induction ts) (simp_all add: frame_empty)

lemma useEffect_idle: "\<not> processing s \<Longrightarrow> useEffect s = s"
  by (simp add: useEffect_def)

lemma dispatch_reset:
  assumes "pipelineInv s"
  shows "dispatch ResetClick s = reset s"
proof -
  from assms have e: "pendingFrames (reset s) = []"
    by (simp add: reset_empty pipelineInv_def)
  show ?thesis
    by (simp add: dispatch_def rerender_def cancelTimer_empty [OF e] useEffect_idle)
qed

text \<open>
  C9. From every state \<open>reset\<close> yields status \<open>NotStarted\<close> (\<open>processing\<close> and \<open>paused\<close>
  false), \<open>currentStepIndex = -1\<close>, \<open>stepProgress = 0\<close> and \<open>elapsedRef = 0\<close>. From every
  reachable state it leaves no animation frame requested, so that whatever frames the
  browser runs afterwards, no \<open>tick\<close> runs and the state stays as \<open>reset\<close> left it.
\<close>

theorem reset_from_any_state:
  "status (reset s) = NotStarted \<and> \<not> processing (reset s) \<and> \<not> paused (reset s)
   \<and> currentStepIndex (reset s) = - 1 \<and> stepProgress (reset s) = 0 \<and> elapsedRef (reset s) = 0
   \<and> dispatch ResetClick (exec initialState evs) = reset (exec initialState evs)
   \<and> pendingFrames (reset (exec initialState evs)) = []
   \<and> exec (reset (exec initialState evs)) (map (\<lambda>t. Frame (fst t) (snd t)) ts)
       = reset (exec initialState evs)"
proof -
  have I: "pipelineInv (exec initialState evs)" by (rule inv_reachable)
  then have e: "pendingFrames (reset (exec initialState evs)) = []"
    by (simp add: reset_empty pipelineInv_def)
  show ?thesis
    using dispatch_reset [OF I] e frames_empty [OF e, of ts]
    by (simp add: status_def)
qed

theorem reset_from_any_state_witness:
  "pendingFrames (exec initialState [FileSelected sampleFile, RunPipeline 0, Frame 480 480])
     = [(2, 0, stepOf 0)]
   \<and> status (exec initialState [FileSelected sampleFile, RunPipeline 0, Frame 480 480, ResetClick])
     = NotStarted
   \<and> pendingFrames
       (exec initialState [FileSelected sampleFile, RunPipeline 0, Frame 480 480, ResetClick]) = []
   \<and> exec initialState
       [FileSelected sampleFile, RunPipeline 0, Frame 480 480, ResetClick, Frame 500 500, Frame 520 520]
     = exec initialState [FileSelected sampleFile, RunPipeline 0, Frame 480 480, ResetClick]"
proof -
  have x: "exec initialState [FileSelected sampleFile, RunPipeline 0, Frame 480 480, ResetClick]
      = dispatch ResetClick (exec initialState [FileSelected sampleFile, RunPipeline 0, Frame 480 480])"
    by simp
  have y: "exec initialState
       [FileSelected sampleFile, RunPipeline 0, Frame 480 480, ResetClick, Frame 500 500, Frame 520 520]
      = exec (dispatch ResetClick (exec initialState [FileSelected sampleFile, RunPipeline 0, Frame 480 480]))
          (map (\<lambda>t. Frame (fst t) (snd t)) [(500, 500), (520, 520)])"
    by simp
  show ?thesis
    unfolding x y
    using reset_from_any_state [of "exec initialState [FileSelected sampleFile, RunPipeline 0, Frame 480 480]"
        "[FileSelected sampleFile, RunPipeline 0, Frame 480 480]" "[(500, 500), (520, 520)]"]
    unfolding ticked_state by simp
qed

section \<open>Progress of a run\<close>

lemma overallProgress_eq:
  "overallProgress s =
    min 100 (max 0 (max 0 (real_of_int (currentStepIndex s)) * (100 / 6)
      + (stepProgress s / 100) * (100 / 6)))"
  by (simp add: overallProgress_def overallProgress_for_def length_STEP_DEFINITIONS)

lemma overall_le_100: "overallProgress s \<le> 100"
  by (simp add: overallProgress_eq)

lemma overall_mono:
  "currentStepIndex a = currentStepIndex b \<Longrightarrow> stepProgress a \<le> stepProgress b \<Longrightarrow>
   overallProgress a \<le> overallProgress b"
  unfolding overallProgress_eq by (auto simp: min_def max_def)

lemma overall_advance:
  "0 \<le> currentStepIndex a \<Longrightarrow> stepProgress a \<le> 100 \<Longrightarrow>
   currentStepIndex b = currentStepIndex a + 1 \<Longrightarrow> stepProgress b = 0 \<Longrightarrow>
   overallProgress a \<le> overallProgress b"
  unfolding overallProgress_eq by (auto simp: min_def max_def)

lemma overall_finished:
  "currentStepIndex b = 5 \<Longrightarrow> stepProgress b = 100 \<Longrightarrow> overallProgress b = 100"
  unfolding overallProgress_eq by simp

lemma overall_below_100:
  "0 \<le> currentStepIndex s \<Longrightarrow> currentStepIndex s < 6 \<Longrightarrow> stepProgress s < 100 \<Longrightarrow>
   overallProgress s < 100"
proof -
  assume a: "0 \<le> currentStepIndex s" "currentStepIndex s < 6" "stepProgress s < 100"
  then have "real_of_int (currentStepIndex s) \<le> 5" by simp
  with a show ?thesis unfolding overallProgress_eq by (auto simp: min_def max_def)
qed

lemma stepOf_duration_pos: "0 \<le> i \<Longrightarrow> i < 6 \<Longrightarrow> 0 < durationMs (stepOf i)"
  by (rule durations_positive [of i]) (simp add: stepAt_valid)

lemma runInv_status:
  assumes "runInv T s"
  shows "status s = (if processing s then Running else Completed)"
  using assms
  by (auto simp: runInv_def status_def pipelineInv_def progressOk_def stepAt_None_iff
      split: if_splits)

lemma runInv_full:
  assumes "runInv T s" "overallProgress s = 100"
  shows "status s = Completed"
proof (cases "processing s")
  case False
  with assms(1) show ?thesis by (simp add: runInv_status)
next
  case True
  with assms(1) have r: "status s = Running" by (simp add: runInv_status)
  have I: "pipelineInv s" using assms(1) by (simp add: runInv_def)
  note f = running_facts [OF I r]
  have "overallProgress s < 100" using f(3,4,5) by (rule overall_below_100)
  with assms(2) show ?thesis by simp
qed

lemma runInv_frame:
  assumes R: "runInv T s" and le: "T \<le> now" "now \<le> now2"
  shows "runInv now2 (dispatch (Frame now now2) s)
    \<and> overallProgress s \<le> overallProgress (dispatch (Frame now now2) s)"
proof (cases "processing s")
  case False
  have I: "pipelineInv s" using R by (simp add: runInv_def)
  from False have "\<not> effectActive s" by (simp add: effectActive_def)
  with I have "pendingFrames s = []" by (simp add: pipelineInv_def queueOk_def)
  then have "dispatch (Frame now now2) s = s" by (rule frame_empty)
  with R False show ?thesis by (simp add: runInv_def)
next
  case True
  have I: "pipelineInv s" using R by (simp add: runInv_def)
  have I': "pipelineInv (dispatch (Frame now now2) s)" using I by (rule inv_dispatch)
  from R True have r: "status s = Running" by (simp add: runInv_status)
  note f = running_facts [OF I r]
  from R True have el: "0 \<le> elapsedRef s" "elapsedRef s \<le> T - stepStartRef s"
    by (simp_all add: runInv_def)
  define idx where "idx = currentStepIndex s"
  define st where "st = stepOf idx"
  have d: "0 < durationMs st" using f(3,4) by (simp add: st_def idx_def stepOf_duration_pos)
  have q: "pendingFrames s = [(the (timerRef s), idx, st)]"
    using f(7) by (simp add: idx_def st_def)
  have p0: "0 \<le> stepProgress s" using f(6) el(1) d by (simp add: st_def idx_def)
  consider (cont) "stagePct st now s < 100"
    | (adv) "100 \<le> stagePct st now s" "idx + 1 < 6"
    | (fin) "100 \<le> stagePct st now s" "\<not> idx + 1 < 6"
    by linarith
  then show ?thesis
  proof cases
    case cont
    note e = frame_continue [OF q cont]
    have "elapsedRef s \<le> now - stepStartRef s" using el(2) le(1) by simp
    then have "stepProgress s \<le> stagePct st now s"
      using d f(6) by (simp add: stagePct_def st_def idx_def divide_right_mono)
    then have "overallProgress s \<le> overallProgress (dispatch (Frame now now2) s)"
      unfolding e by (intro overall_mono) (simp_all add: requestAnimationFrame_def)
    moreover have "runInv now2 (dispatch (Frame now now2) s)"
      using I' f(1,2) el le unfolding runInv_def
      unfolding e by (simp add: requestAnimationFrame_def)
    ultimately show ?thesis by simp
  next
    case adv
    have nx: "currentStepIndex s + 1 < 6" using adv(2) by (simp add: idx_def)
    note e = frame_advance [OF q adv f(1) f(2) f(3) nx]
    have "overallProgress s \<le> overallProgress (dispatch (Frame now now2) s)"
      unfolding e using f(3,5)
      by (intro overall_advance) (simp_all add: requestAnimationFrame_def)
    moreover have "runInv now2 (dispatch (Frame now now2) s)"
      using I' f(1,2) unfolding runInv_def
      unfolding e by (simp add: requestAnimationFrame_def)
    ultimately show ?thesis by simp
  next
    case fin
    note e = frame_finish [OF q fin]
    from fin(2) f(4) have five: "currentStepIndex s = 5" by (simp add: idx_def)
    have "overallProgress (dispatch (Frame now now2) s) = 100"
      unfolding e using five by (intro overall_finished) simp_all
    then have "overallProgress s \<le> overallProgress (dispatch (Frame now now2) s)"
      by (simp add: overall_le_100)
    moreover have "runInv now2 (dispatch (Frame now now2) s)"
      using I' five unfolding runInv_def
      unfolding e by simp
    ultimately show ?thesis by simp
  qed
qed

lemma trace_monotone:
  assumes "runInv T s" "sorted (T # readings ticks)"
  shows "(\<forall>s' \<in> set (trace s ticks).
            overallProgress s \<le> overallProgress s'
            \<and> (overallProgress s' = 100 \<longrightarrow> status s' = Completed))
    \<and> sorted (map overallProgress (trace s ticks))"
  using assms
proof (induction ticks arbitrary: s T)
  case Nil
  then show ?case by (simp add: runInv_full)
next
  case (Cons t ts)
  let ?s1 = "dispatch (Frame (fst t) (snd t)) s"
  from Cons.prems(2) have le: "T \<le> fst t" "fst t \<le> snd t"
    and srt: "sorted (snd t # readings ts)"
    by auto
  from runInv_frame [OF Cons.prems(1) le]
  have R1: "runInv (snd t) ?s1" and up: "overallProgress s \<le> overallProgress ?s1"
    by simp_all
  from Cons.IH [OF R1 srt]
  have all: "\<forall>s' \<in> set (trace ?s1 ts).
            overallProgress ?s1 \<le> overallProgress s'
            \<and> (overallProgress s' = 100 \<longrightarrow> status s' = Completed)"
    and s1: "sorted (map overallProgress (trace ?s1 ts))"
    by simp_all
  from all up have "\<forall>s' \<in> set (trace ?s1 ts). overallProgress s \<le> overallProgress s'"
    by fastforce
  with all s1 Cons.prems(1) show ?case
    by (simp add: runInv_full)
qed

lemma startProcessing_file:
  assumes "file' s \<noteq> None"
  shows "startProcessing now s =
    s\<lparr>processing := True, paused := False, currentStepIndex := 0, stepProgress := 0,
      elapsedRef := 0, stepStartRef := now\<rparr>"
  using assms by (cases "file' s") (simp_all add: startProcessing_def)

lemma runInv_started:
  assumes "pipelineInv s" "file' s \<noteq> None"
  shows "runInv t0 (dispatch (RunPipeline t0) s)"
proof -
  have "pipelineInv (dispatch (RunPipeline t0) s)" using assms(1) by (rule inv_dispatch)
  then show ?thesis
    by (simp add: runInv_def dispatch_def startProcessing_file [OF assms(2)])
qed

text \<open>
  C6. Take any reachable state with a file selected, start a run at clock reading \<open>t0\<close>
  and let the browser run frames whose clock readings, in the order they are taken, never
  decrease from \<open>t0\<close> on. Then \<open>overallProgress\<close> is 0 right after the start, it never
  decreases along the states the run goes through, and every state of the run in which
  it is 100 has status \<open>Completed\<close>.
\<close>

theorem overallProgress_monotone:
  assumes "s = exec initialState evs" and "file' s \<noteq> None"
    and "sorted (t0 # readings ticks)"
  shows "overallProgress (dispatch (RunPipeline t0) s) = 0
    \<and> status (dispatch (RunPipeline t0) s) = Running
    \<and> sorted (map overallProgress (trace (dispatch (RunPipeline t0) s) ticks))
    \<and> (\<forall>s' \<in> set (trace (dispatch (RunPipeline t0) s) ticks).
          overallProgress s' = 100 \<longrightarrow> status s' = Completed)"
proof -
  have I: "pipelineInv s" unfolding assms(1) by (rule inv_reachable)
  have R: "runInv t0 (dispatch (RunPipeline t0) s)"
    using I assms(2) by (rule runInv_started)
  have z: "overallProgress (dispatch (RunPipeline t0) s) = 0
      \<and> status (dispatch (RunPipeline t0) s) = Running"
    by (simp add: overallProgress_eq dispatch_def startProcessing_file [OF assms(2)] status_def)
  from trace_monotone [OF R assms(3)] z show ?thesis by simp
qed

lemma picked_state:
  "exec initialState [FileSelected sampleFile] =
    \<lparr>file' = Some sampleFile, errorMessage = [], processing = False, paused = False,
     currentStepIndex = - 1, stepProgress = 0, timerRef = None, stepStartRef = 0,
     elapsedRef = 0, pendingFrames = [], nextFrameId = 1\<rparr>"
  by (simp add: evals)

lemma full_run:
  "map (\<lambda>s. (overallProgress s, status s))
     (trace (dispatch (RunPipeline 0) (exec initialState [FileSelected sampleFile]))
       [(1000, 1000), (2000, 2001), (5001, 5001), (7001, 7001), (8501, 8501),
        (10001, 10001), (11501, 11501)])
   = [(0, Running), (25 / 3, Running), (50 / 3, Running), (100 / 3, Running), (50, Running),
      (200 / 3, Running), (250 / 3, Running), (100, Completed)]"
  unfolding picked_state by (simp add: evals overallProgress_eq)

theorem overallProgress_monotone_witness:
  "file' (exec initialState [FileSelected sampleFile]) \<noteq> None
   \<and> sorted (0 # readings [(1000, 1000), (2000, 2001), (5001, 5001), (7001, 7001),
        (8501, 8501), (10001, 10001), (11501, 11501)])
   \<and> overallProgress (dispatch (RunPipeline 0) (exec initialState [FileSelected sampleFile])) = 0
   \<and> sorted (map overallProgress
        (trace (dispatch (RunPipeline 0) (exec initialState [FileSelected sampleFile]))
          [(1000, 1000), (2000, 2001), (5001, 5001), (7001, 7001), (8501, 8501),
           (10001, 10001), (11501, 11501)]))
   \<and> map (\<lambda>s. (overallProgress s, status s))
        (trace (dispatch (RunPipeline 0) (exec initialState [FileSelected sampleFile]))
          [(1000, 1000), (2000, 2001), (5001, 5001), (7001, 7001), (8501, 8501),
           (10001, 10001), (11501, 11501)])
      = [(0, Running), (25 / 3, Running), (50 / 3, Running), (100 / 3, Running), (50, Running),
         (200 / 3, Running), (250 / 3, Running), (100, Completed)]"
proof -
  have f: "file' (exec initialState [FileSelected sampleFile]) \<noteq> None"
    unfolding picked_state by simp
  have t: "sorted (0 # readings [(1000, 1000), (2000, 2001), (5001, 5001), (7001, 7001),
        (8501, 8501), (10001, 10001), (11501, 11501 :: real)])"
    by simp
  from overallProgress_monotone [OF refl f t] f t full_run show ?thesis
    by blast
qed

section \<open>Pause and resume on doubles\<close>

subsection \<open>Rounding\<close>

lemma roundEven_error: "\<bar>of_int (roundEven y) - y\<bar> \<le> 1 / 2"
proof -
  have "of_int \<lfloor>y\<rfloor> \<le> y" "y < of_int \<lfloor>y\<rfloor> + 1" by linarith+
  then show ?thesis by (auto simp: roundEven_def Let_def)
qed

lemma ulp_pos: "0 < ulp x"
  by (simp add: ulp_def)

lemma ulp_le: "x \<noteq> 0 \<Longrightarrow> ulp x \<le> \<bar>x\<bar> / 2 ^ 52"
proof -
  assume x: "x \<noteq> 0"
  have "2 powr of_int \<lfloor>log 2 \<bar>x\<bar>\<rfloor> \<le> 2 powr log 2 \<bar>x\<bar>"
    by (intro powr_mono) simp_all
  also have "\<dots> = \<bar>x\<bar>" using x by simp
  finally have "2 powr of_int \<lfloor>log 2 \<bar>x\<bar>\<rfloor> \<le> \<bar>x\<bar>" .
  moreover have "ulp x = 2 powr of_int \<lfloor>log 2 \<bar>x\<bar>\<rfloor> / 2 ^ 52"
    by (simp add: ulp_def powr_diff)
  ultimately show ?thesis by (simp add: divide_right_mono)
qed

lemma fl_error: "\<bar>fl x - x\<bar> \<le> \<bar>x\<bar> / 2 ^ 53"
proof (cases "x = 0")
  case True
  then show ?thesis by (simp add: fl_def)
next
  case False
  define u where "u = ulp x"
  have u: "0 < u" by (simp add: u_def ulp_pos)
  have "\<bar>of_int (roundEven (x / u)) - x / u\<bar> \<le> 1 / 2" by (rule roundEven_error)
  then have "\<bar>of_int (roundEven (x / u)) - x / u\<bar> * u \<le> 1 / 2 * u"
    using u by (intro mult_right_mono) simp_all
  moreover have "of_int (roundEven (x / u)) * u - x = (of_int (roundEven (x / u)) - x / u) * u"
    using u by (simp add: left_diff_distrib)
  then have "\<bar>of_int (roundEven (x / u)) - x / u\<bar> * u = \<bar>of_int (roundEven (x / u)) * u - x\<bar>"
    using u by (simp add: abs_mult)
  ultimately have "\<bar>fl x - x\<bar> \<le> u / 2" using False by (simp add: fl_def u_def)
  moreover have "u \<le> \<bar>x\<bar> / 2 ^ 52" unfolding u_def using False by (rule ulp_le)
  ultimately show ?thesis by simp
qed

lemma fl_0 [simp]: "fl 0 = 0"
  by (simp add: fl_def)

text \<open>
  Evaluation at a number whose magnitude, scaled by \<open>2 ^ k\<close>, lies between \<open>2 ^ 52\<close>
  and \<open>2 ^ 53\<close>.
\<close>

lemma ulp_eval:
  assumes "2 ^ 52 \<le> \<bar>x\<bar> * 2 ^ k" "\<bar>x\<bar> * 2 ^ k < 2 ^ 53"
  shows "ulp x = 1 / 2 ^ k"
proof -
  have x: "0 < \<bar>x\<bar>" using assms(1) by (cases "x = 0") simp_all
  have l: "log 2 (\<bar>x\<bar> * 2 ^ k) = log 2 \<bar>x\<bar> + real k"
    using x by (simp add: log_mult log_nat_power)
  have "52 \<le> log 2 (\<bar>x\<bar> * 2 ^ k)"
    using assms(1) x by (subst le_log_iff) (simp_all add: powr_realpow)
  moreover have "log 2 (\<bar>x\<bar> * 2 ^ k) < 53"
    using assms(2) x by (subst log_less_iff) (simp_all add: powr_realpow)
  ultimately have "\<lfloor>log 2 \<bar>x\<bar>\<rfloor> = 52 - int k"
    unfolding l by (intro floor_unique) simp_all
  then have "of_int \<lfloor>log 2 \<bar>x\<bar>\<rfloor> - 52 = - real k" by simp
  then have "ulp x = 2 powr (- real k)" by (simp add: ulp_def)
  also have "\<dots> = 1 / 2 ^ k" by (simp add: powr_minus powr_realpow divide_inverse)
  finally show ?thesis .
qed

lemma fl_eval:
  assumes "2 ^ 52 \<le> \<bar>x\<bar> * 2 ^ k" "\<bar>x\<bar> * 2 ^ k < 2 ^ 53"
  shows "fl x = of_int (roundEven (x * 2 ^ k)) / 2 ^ k"
proof -
  have "x \<noteq> 0" using assms(1) by auto
  then show ?thesis by (simp add: fl_def ulp_eval [OF assms])
qed

text \<open>
  The error of the round trip \<open>t - (t - E)\<close> and of the progress computed from it.
\<close>

lemma rebase_error:
  assumes "0 \<le> E" "E \<le> t"
  shows "\<bar>fl (t - fl (t - E)) - E\<bar> \<le> t / 2 ^ 52"
proof -
  define a where "a = t - E"
  define a' where "a' = fl a"
  define b where "b = t - a'"
  have a: "0 \<le> a" using assms by (simp add: a_def)
  have 1: "\<bar>a' - a\<bar> \<le> a / 2 ^ 53"
    using fl_error [of a] a by (simp add: a'_def)
  have 2: "\<bar>fl b - b\<bar> \<le> \<bar>b\<bar> / 2 ^ 53" by (rule fl_error)
  have 3: "b - E = a - a'" by (simp add: b_def a_def)
  have "\<bar>b\<bar> \<le> E + a / 2 ^ 53" using 1 3 assms(1) by linarith
  then have 4: "\<bar>b\<bar> / 2 ^ 53 \<le> (E + a / 2 ^ 53) / 2 ^ 53"
    by (intro divide_right_mono) simp_all
  have "a / 2 ^ 53 \<le> a" using a by (simp add: field_simps)
  then have "(E + a / 2 ^ 53) / 2 ^ 53 \<le> (E + a) / 2 ^ 53"
    by (intro divide_right_mono) simp_all
  with 4 have 5: "\<bar>b\<bar> / 2 ^ 53 \<le> (E + a) / 2 ^ 53" by linarith
  have "\<bar>fl b - E\<bar> \<le> \<bar>fl b - b\<bar> + \<bar>b - E\<bar>" by linarith
  also have "\<dots> \<le> (E + a) / 2 ^ 53 + a / 2 ^ 53"
    using 2 5 1 3 by linarith
  also have "\<dots> \<le> t / 2 ^ 52" using assms by (simp add: a_def field_simps)
  finally show ?thesis by (simp add: b_def a'_def a_def)
qed

lemma raw_pct_error:
  assumes "0 < d"
  shows "\<bar>fl (fl (x / d) * 100) - 100 * (x / d)\<bar> \<le> 300 * (\<bar>x\<bar> / d) / 2 ^ 53"
proof -
  define z where "z = x / d"
  define X where "X = \<bar>x\<bar> / d"
  define q where "q = fl z"
  define w where "w = fl (q * 100)"
  have X: "0 \<le> X" using assms by (simp add: X_def)
  have xd: "\<bar>z\<bar> = X" using assms by (simp add: X_def z_def)
  have 1: "\<bar>q - z\<bar> \<le> X / 2 ^ 53"
    using fl_error [of z] by (simp only: q_def xd)
  have "X / 2 ^ 53 \<le> X" using X by (simp add: field_simps)
  with 1 xd have q: "\<bar>q\<bar> \<le> 2 * X" by linarith
  have "\<bar>w - q * 100\<bar> \<le> \<bar>q * 100\<bar> / 2 ^ 53" unfolding w_def by (rule fl_error)
  also have "\<bar>q * 100\<bar> = 100 * \<bar>q\<bar>" by (simp add: abs_mult)
  also have "100 * \<bar>q\<bar> / 2 ^ 53 \<le> 100 * (2 * X) / 2 ^ 53"
    using q by (intro divide_right_mono mult_left_mono) simp_all
  finally have 2: "\<bar>w - q * 100\<bar> \<le> 200 * (X / 2 ^ 53)" by simp
  have "\<bar>w - 100 * z\<bar> \<le> 300 * (X / 2 ^ 53)"
    using 1 2 by linarith
  then show ?thesis by (simp add: w_def q_def X_def z_def)
qed

lemma pct_fl_error:
  assumes d: "0 < durationMs st" and E: "0 \<le> E" "E \<le> t"
    and e: "\<bar>e' - E\<bar> \<le> t / 2 ^ 52"
  shows "\<bar>pct_fl st e' - pct_fl st E\<bar> \<le> t / (2 ^ 43 * durationMs st)"
proof -
  define dd where "dd = durationMs st"
  define T where "T = t / dd"
  define P where "P = fl (fl (e' / dd) * 100)"
  define Q where "Q = fl (fl (E / dd) * 100)"
  define ze where "ze = e' / dd"
  define zE where "zE = E / dd"
  define Xe where "Xe = \<bar>e'\<bar> / dd"
  define XE where "XE = \<bar>E\<bar> / dd"
  have dd: "0 < dd" using d by (simp add: dd_def)
  have T: "0 \<le> T" using E dd by (simp add: T_def)
  have XE: "XE \<le> T"
    using E dd by (simp add: T_def XE_def divide_right_mono)
  have "\<bar>e'\<bar> \<le> t + t / 2 ^ 52" using e E by linarith
  then have "\<bar>e'\<bar> / dd \<le> (t + t / 2 ^ 52) / dd"
    using dd by (intro divide_right_mono) simp_all
  then have Xe: "Xe \<le> T + T / 2 ^ 52"
    by (simp add: T_def Xe_def add_divide_distrib)
  have "\<bar>e' - E\<bar> / dd \<le> (t / 2 ^ 52) / dd"
    using e dd by (intro divide_right_mono) simp_all
  then have D: "\<bar>ze - zE\<bar> \<le> T / 2 ^ 52"
    using dd by (simp add: T_def ze_def zE_def diff_divide_distrib [symmetric])
  have "\<bar>P - 100 * ze\<bar> \<le> 300 * Xe / 2 ^ 53"
    unfolding P_def ze_def Xe_def using dd by (rule raw_pct_error)
  then have A1: "\<bar>P - 100 * ze\<bar> \<le> 300 * (Xe / 2 ^ 53)" by simp
  have "\<bar>Q - 100 * zE\<bar> \<le> 300 * XE / 2 ^ 53"
    unfolding Q_def zE_def XE_def using dd by (rule raw_pct_error)
  then have A2: "\<bar>Q - 100 * zE\<bar> \<le> 300 * (XE / 2 ^ 53)" by simp
  have B1: "Xe / 2 ^ 53 \<le> (T + T / 2 ^ 52) / 2 ^ 53"
    using Xe by (intro divide_right_mono) simp_all
  have B2: "XE / 2 ^ 53 \<le> T / 2 ^ 53"
    using XE by (intro divide_right_mono) simp_all
  have "\<bar>pct_fl st e' - pct_fl st E\<bar> \<le> \<bar>P - Q\<bar>"
    unfolding pct_fl_def dd_def [symmetric] P_def [symmetric] Q_def [symmetric] by linarith
  also have "\<dots> \<le> \<bar>P - 100 * ze\<bar> + \<bar>100 * ze - 100 * zE\<bar> + \<bar>Q - 100 * zE\<bar>"
    by linarith
  also have "\<bar>100 * ze - 100 * zE\<bar> = 100 * \<bar>ze - zE\<bar>"
    by (simp add: abs_mult right_diff_distrib [symmetric] del: right_diff_distrib_numeral)
  also have "\<bar>P - 100 * ze\<bar> + 100 * \<bar>ze - zE\<bar> + \<bar>Q - 100 * zE\<bar>
      \<le> 300 * (Xe / 2 ^ 53) + 100 * \<bar>ze - zE\<bar> + 300 * (XE / 2 ^ 53)"
    using A1 A2 by linarith
  also have "\<dots> \<le> 300 * ((T + T / 2 ^ 52) / 2 ^ 53) + 100 * (T / 2 ^ 52)
      + 300 * (T / 2 ^ 53)"
    using B1 B2 D by (intro add_mono mult_left_mono) simp_all
  also have "\<dots> \<le> T / 2 ^ 43"
    using T by (simp add: field_simps)
  finally show ?thesis by (simp add: T_def dd_def)
qed

subsection \<open>The invariant\<close>

lemma pct_fl_0 [simp]: "pct_fl st 0 = 0"
  by (simp add: pct_fl_def)

lemma progressOk_fl_rerender [simp]:
  "progressOk_fl (rerender old new) = progressOk_fl new"
  "progressOk_fl (useEffect s) = progressOk_fl s"
  "progressOk_fl (cancelTimer s) = progressOk_fl s"
  by (simp_all add: progressOk_fl_def)

lemma rerender_fl_fresh:
  assumes "pendingFrames m = []" "0 < nextFrameId m" "processing m \<longrightarrow> progressOk_fl m"
  shows "pipelineInv_fl (useEffect m)"
  using useEffect_queueOk [OF assms(1,2)] assms(3)
  by (simp add: pipelineInv_fl_def)

lemma rerender_fl_keep:
  assumes inv: "pipelineInv_fl old"
    and same: "timerRef new = timerRef old" "pendingFrames new = pendingFrames old"
      "nextFrameId new = nextFrameId old"
    and prog: "processing new \<longrightarrow> progressOk_fl new"
  shows "pipelineInv_fl (rerender old new)"
proof (cases "deps new = deps old")
  case True
  then have "queueOk new = queueOk old"
    using same by (simp add: queueOk_def effectActive_deps [OF True] deps_def)
  with inv same prog True show ?thesis
    by (simp add: rerender_same_deps pipelineInv_fl_def)
next
  case False
  let ?m = "if effectActive old then cancelTimer new else new"
  have "pendingFrames ?m = []"
    using inv same by (intro queueOk_cancel) (simp_all add: pipelineInv_fl_def)
  moreover have "0 < nextFrameId ?m" using inv same by (simp add: pipelineInv_fl_def)
  moreover have "processing ?m \<longrightarrow> progressOk_fl ?m" using prog by simp
  ultimately have "pipelineInv_fl (useEffect ?m)" by (rule rerender_fl_fresh)
  with False show ?thesis by (simp add: rerender_def)
qed

lemma rerender_fl_empty:
  assumes empty: "pendingFrames new = []"
    and pos: "0 < nextFrameId new"
    and changed: "deps new \<noteq> deps old \<or> \<not> effectActive new"
    and prog: "processing new \<longrightarrow> progressOk_fl new"
  shows "pipelineInv_fl (rerender old new)"
proof (cases "deps new = deps old")
  case True
  with changed empty pos prog show ?thesis
    by (simp add: rerender_same_deps pipelineInv_fl_def queueOk_def)
next
  case False
  let ?m = "if effectActive old then cancelTimer new else new"
  have "pendingFrames ?m = []" using empty by simp
  moreover have "0 < nextFrameId ?m" using pos by simp
  moreover have "processing ?m \<longrightarrow> progressOk_fl ?m" using prog by simp
  ultimately have "pipelineInv_fl (useEffect ?m)" by (rule rerender_fl_fresh)
  with False show ?thesis by (simp add: rerender_def)
qed

lemma inv_fl_initial: "pipelineInv_fl initialState"
  by (simp add: pipelineInv_fl_def queueOk_def effectActive_def initialState_def)

lemma inv_fl_start: "pipelineInv_fl s \<Longrightarrow> pipelineInv_fl (dispatch_fl (RunPipeline now) s)"
  unfolding dispatch_fl_def handle_fl.simps
  by (rule rerender_fl_keep)
    (auto simp: startProcessing_def progressOk_fl_def stepAt_0 pipelineInv_fl_def)

lemma inv_fl_pause: "pipelineInv_fl s \<Longrightarrow> pipelineInv_fl (dispatch_fl PauseClick s)"
  unfolding dispatch_fl_def handle_fl.simps
  by (rule rerender_fl_keep) (auto simp: pause_def progressOk_fl_def pipelineInv_fl_def)

lemma inv_fl_resume: "pipelineInv_fl s \<Longrightarrow> pipelineInv_fl (dispatch_fl (ResumeClick now) s)"
  unfolding dispatch_fl_def handle_fl.simps
  by (rule rerender_fl_keep) (auto simp: resume_fl_def progressOk_fl_def pipelineInv_fl_def)

lemma inv_fl_reset: "pipelineInv_fl s \<Longrightarrow> pipelineInv_fl (dispatch_fl ResetClick s)"
  unfolding dispatch_fl_def handle_fl.simps
  by (rule rerender_fl_empty) (simp_all add: reset_empty pipelineInv_fl_def effectActive_def)

lemma inv_fl_file: "pipelineInv_fl s \<Longrightarrow> pipelineInv_fl (dispatch_fl (FileSelected f) s)"
  unfolding dispatch_fl_def handle_fl.simps handleFile_def
  by (rule rerender_fl_empty)
    (simp_all add: reset_empty queueOk_file pipelineInv_fl_def effectActive_def)

lemma tick_fl_continue:
  "pct_fl st (fl (now - stepStartRef s)) < 100 \<Longrightarrow>
   tick_fl ci st now now2 s =
     requestAnimationFrame ci st
       (s\<lparr>elapsedRef := fl (now - stepStartRef s),
          stepProgress := pct_fl st (fl (now - stepStartRef s))\<rparr>)"
  by (simp add: tick_fl_def pct_fl_def Let_def)

lemma tick_fl_advance:
  "100 \<le> pct_fl st (fl (now - stepStartRef s)) \<Longrightarrow> ci + 1 < 6 \<Longrightarrow>
   tick_fl ci st now now2 s =
     s\<lparr>currentStepIndex := currentStepIndex s + 1, stepProgress := 0, elapsedRef := 0,
       stepStartRef := now2\<rparr>"
  by (simp add: tick_fl_def pct_fl_def Let_def length_STEP_DEFINITIONS)

lemma tick_fl_finish:
  "100 \<le> pct_fl st (fl (now - stepStartRef s)) \<Longrightarrow> \<not> ci + 1 < 6 \<Longrightarrow>
   tick_fl ci st now now2 s =
     s\<lparr>elapsedRef := fl (now - stepStartRef s), stepProgress := 100, processing := False\<rparr>"
  by (simp add: tick_fl_def pct_fl_def Let_def length_STEP_DEFINITIONS)

lemma frame_fl_continue:
  assumes "pendingFrames s = [(i, ci, st)]" "pct_fl st (fl (now - stepStartRef s)) < 100"
  shows "dispatch_fl (Frame now now2) s =
    requestAnimationFrame ci st
      (s\<lparr>pendingFrames := [], elapsedRef := fl (now - stepStartRef s),
         stepProgress := pct_fl st (fl (now - stepStartRef s))\<rparr>)"
proof -
  have "runFrame_fl now now2 s = requestAnimationFrame ci st
      (s\<lparr>pendingFrames := [], elapsedRef := fl (now - stepStartRef s),
         stepProgress := pct_fl st (fl (now - stepStartRef s))\<rparr>)"
    using assms by (simp add: runFrame_fl_def tick_fl_continue)
  moreover have "deps \<dots> = deps s" by (simp add: deps_def requestAnimationFrame_def)
  ultimately show ?thesis by (simp add: dispatch_fl_def rerender_same_deps)
qed

lemma frame_fl_finish:
  assumes "pendingFrames s = [(i, ci, st)]" "100 \<le> pct_fl st (fl (now - stepStartRef s))"
    "\<not> ci + 1 < 6"
  shows "dispatch_fl (Frame now now2) s =
    s\<lparr>pendingFrames := [], elapsedRef := fl (now - stepStartRef s), stepProgress := 100,
      processing := False\<rparr>"
proof -
  have run: "runFrame_fl now now2 s = s\<lparr>pendingFrames := [],
      elapsedRef := fl (now - stepStartRef s), stepProgress := 100, processing := False\<rparr>"
    using assms by (simp add: runFrame_fl_def tick_fl_finish)
  show ?thesis
    by (simp add: dispatch_fl_def run rerender_def useEffect_def cancelTimer_empty)
qed

lemma frame_fl_advance:
  assumes "pendingFrames s = [(i, ci, st)]" "100 \<le> pct_fl st (fl (now - stepStartRef s))"
    "ci + 1 < 6"
    and "processing s" "\<not> paused s" "0 \<le> currentStepIndex s" "currentStepIndex s + 1 < 6"
  shows "dispatch_fl (Frame now now2) s =
    requestAnimationFrame (currentStepIndex s + 1) (stepOf (currentStepIndex s + 1))
      (s\<lparr>pendingFrames := [], currentStepIndex := currentStepIndex s + 1, stepProgress := 0,
         elapsedRef := 0, stepStartRef := now2\<rparr>)"
proof -
  have run: "runFrame_fl now now2 s = s\<lparr>pendingFrames := [],
      currentStepIndex := currentStepIndex s + 1, stepProgress := 0,
      elapsedRef := 0, stepStartRef := now2\<rparr>"
    using assms(1-3) by (simp add: runFrame_fl_def tick_fl_advance)
  have st: "stepAt (currentStepIndex s + 1) = Some (stepOf (currentStepIndex s + 1))"
    using assms(6,7) by (simp add: stepAt_Some_iff)
  show ?thesis using assms(4-7)
    by (simp add: dispatch_fl_def run rerender_def deps_def useEffect_def cancelTimer_empty st)
qed

lemma inv_fl_frame: "pipelineInv_fl s \<Longrightarrow> pipelineInv_fl (dispatch_fl (Frame now now2) s)"
proof (cases "pendingFrames s")
  case Nil
  assume "pipelineInv_fl s"
  with Nil show ?thesis by (simp add: dispatch_fl_def runFrame_fl_def rerender_same_deps)
next
  case (Cons fr rest)
  assume I: "pipelineInv_fl s"
  define idx where "idx = currentStepIndex s"
  define st where "st = snd (snd fr)"
  from I Cons have act: "effectActive s" and rest: "rest = []" and ci: "fst (snd fr) = idx"
    and st: "stepAt idx = Some st"
    using queueOk_active [of s fr rest] by (simp_all add: pipelineInv_fl_def idx_def st_def)
  have q: "pendingFrames s = [(fst fr, idx, st)]"
    using Cons rest ci by (simp add: st_def prod_eq_iff)
  from I have pos: "0 < nextFrameId s" by (simp add: pipelineInv_fl_def)
  from act have pr: "processing s" "\<not> paused s" "0 \<le> currentStepIndex s"
    by (simp_all add: effectActive_def)
  consider (cont) "pct_fl st (fl (now - stepStartRef s)) < 100"
    | (adv) "100 \<le> pct_fl st (fl (now - stepStartRef s))" "idx + 1 < 6"
    | (fin) "100 \<le> pct_fl st (fl (now - stepStartRef s))" "\<not> idx + 1 < 6"
    by linarith
  then show ?thesis
  proof cases
    case cont
    show ?thesis
      unfolding frame_fl_continue [OF q cont] using act st pos cont
      by (simp add: pipelineInv_fl_def queueOk_def progressOk_fl_def effectActive_def
          requestAnimationFrame_def idx_def stepAt_Some_iff)
  next
    case adv
    have nx: "currentStepIndex s + 1 < 6" using adv(2) by (simp add: idx_def)
    show ?thesis
      unfolding frame_fl_advance [OF q adv pr nx] using pos pr nx
      by (simp add: pipelineInv_fl_def queueOk_def progressOk_fl_def effectActive_def
          requestAnimationFrame_def stepAt_None_iff)
  next
    case fin
    show ?thesis
      unfolding frame_fl_finish [OF q fin] using pos
      by (simp add: pipelineInv_fl_def queueOk_def effectActive_def)
  qed
qed

lemma inv_fl_dispatch: "pipelineInv_fl s \<Longrightarrow> pipelineInv_fl (dispatch_fl ev s)"
  by (cases ev)
    (simp_all add: inv_fl_file inv_fl_start inv_fl_pause inv_fl_resume inv_fl_reset inv_fl_frame)

lemma inv_fl_exec: "pipelineInv_fl s \<Longrightarrow> pipelineInv_fl (exec_fl s evs)"
  by (induction evs arbitrary: s) (simp_all add: inv_fl_dispatch)

lemma inv_fl_reachable: "pipelineInv_fl (exec_fl initialState evs)"
  by (rule inv_fl_exec [OF inv_fl_initial])

lemma running_facts_fl:
  assumes "pipelineInv_fl s" "status s = Running"
  shows "processing s" "\<not> paused s" "0 \<le> currentStepIndex s" "currentStepIndex s < 6"
    "stepProgress s < 100"
    "stepProgress s = pct_fl (stepOf (currentStepIndex s)) (elapsedRef s)"
    "pendingFrames s = [(the (timerRef s), currentStepIndex s, stepOf (currentStepIndex s))]"
    "timerRef s \<noteq> None" "timerRef s \<noteq> Some 0"
proof -
  from assms(2) show p: "processing s" and q: "\<not> paused s"
    by (simp_all add: status_def split: if_splits)
  with assms(1) have ok: "progressOk_fl s" by (simp add: pipelineInv_fl_def)
  then show i: "0 \<le> currentStepIndex s" "currentStepIndex s < 6"
    by (auto simp: progressOk_fl_def stepAt_Some_iff)
  from ok show "stepProgress s < 100"
    "stepProgress s = pct_fl (stepOf (currentStepIndex s)) (elapsedRef s)"
    by (simp_all add: progressOk_fl_def)
  from p q i have "effectActive s" by (simp add: effectActive_def stepAt_None_iff)
  with assms(1) show
    "pendingFrames s = [(the (timerRef s), currentStepIndex s, stepOf (currentStepIndex s))]"
    "timerRef s \<noteq> None" "timerRef s \<noteq> Some 0"
    by (simp_all add: pipelineInv_fl_def queueOk_def)
qed

lemma pause_running_fl:
  assumes "pipelineInv_fl s" "status s = Running"
  shows "dispatch_fl PauseClick s = s\<lparr>paused := True, pendingFrames := []\<rparr>"
proof -
  note f = running_facts_fl [OF assms]
  from f(8) obtain i where i: "timerRef s = Some i" by auto
  with f(9) have i0: "i \<noteq> 0" by simp
  have act: "effectActive s" using f(1-4) by (simp add: effectActive_def stepAt_None_iff)
  have c: "cancelTimer (s\<lparr>paused := True\<rparr>) = s\<lparr>paused := True, pendingFrames := []\<rparr>"
    using i i0 f(7) by (simp add: cancelTimer_def)
  show ?thesis using f(2) act
    by (simp add: dispatch_fl_def pause_def rerender_def deps_def c useEffect_def)
qed

lemma resume_fl_paused:
  assumes "processing s" "paused s" "0 \<le> currentStepIndex s" "currentStepIndex s < 6"
  shows "dispatch_fl (ResumeClick t0) s =
    requestAnimationFrame (currentStepIndex s) (stepOf (currentStepIndex s))
      (s\<lparr>paused := False, stepStartRef := fl (t0 - elapsedRef s)\<rparr>)"
proof -
  have st: "stepAt (currentStepIndex s) = Some (stepOf (currentStepIndex s))"
    using assms(3,4) by (simp add: stepAt_Some_iff)
  show ?thesis using assms
    by (simp add: dispatch_fl_def resume_fl_def rerender_def deps_def effectActive_def
        useEffect_def st)
qed

lemma resume_fl_running:
  assumes "processing s" "\<not> paused s"
  shows "dispatch_fl (ResumeClick t0) s =
    s\<lparr>paused := False, stepStartRef := fl (t0 - elapsedRef s)\<rparr>"
  using assms by (simp add: dispatch_fl_def resume_fl_def rerender_def deps_def)

subsection \<open>Three runs\<close>

text \<open>
  The values of three runs, each a start, one tick, and a resume with a tick at the time
  of the resume. Run A: 3000, 3480.1, 9000.7. Run B: 3120.4, 5120.4, 76414.2. Run C:
  32758.2, 32926, 32959.3. A decimal such as 3480.1 is the double \<open>fl (34801 / 10)\<close>.
\<close>

lemmas evals_fl = dispatch_fl_def rerender_def deps_def effectActive_def useEffect_def
  cancelTimer_def requestAnimationFrame_def handleFile_def reset_def startProcessing_def
  pause_def resume_fl_def runFrame_fl_def tick_fl_def Let_def stepAt_valid durations
  initialState_def status_def length_STEP_DEFINITIONS

lemma fl_A1: "fl (34801 / 10) = 7652820831646515 / 2199023255552"
  by (subst fl_eval [where k = 41]) (simp_all add: roundEven_def)

lemma fl_A2: "fl (90007 / 10) = 2474093577030861 / 274877906944"
  by (subst fl_eval [where k = 39]) (simp_all add: roundEven_def)

lemma fl_A3: "fl (1055751064990515 / 2199023255552) = 1055751064990515 / 2199023255552"
  by (subst fl_eval [where k = 44]) (simp_all add: roundEven_def)

lemma fl_A4: "fl (211150212998103 / 879609302220800) = 8648712724402299 / 36028797018963968"
  by (subst fl_eval [where k = 55]) (simp_all add: roundEven_def)

lemma fl_A5: "fl (216217818110057475 / 9007199254740992) = 211150212998103 / 8796093022208"
  by (subst fl_eval [where k = 48]) (simp_all add: roundEven_def)

lemma fl_A6: "fl (18736997551256373 / 2199023255552) = 4684249387814093 / 549755813888"
  by (subst fl_eval [where k = 39]) (simp_all add: roundEven_def)

lemma fl_A7: "fl (263937766247629 / 549755813888) = 263937766247629 / 549755813888"
  by (subst fl_eval [where k = 44]) (simp_all add: roundEven_def)

lemma fl_A8: "fl (263937766247629 / 1099511627776000) = 8648712724402307 / 36028797018963968"
  by (subst fl_eval [where k = 55]) (simp_all add: roundEven_def)

lemma fl_A9: "fl (216217818110057675 / 9007199254740992) = 3378403407969651 / 140737488355328"
  by (subst fl_eval [where k = 48]) (simp_all add: roundEven_def)

lemma fl_B1: "fl (15602 / 5) = 6861832166624461 / 2199023255552"
  by (subst fl_eval [where k = 41]) (simp_all add: roundEven_def)

lemma fl_B2: "fl (25602 / 5) = 2814969669432115 / 549755813888"
  by (subst fl_eval [where k = 40]) (simp_all add: roundEven_def)

lemma fl_B3: "fl (382071 / 5) = 5251143839200051 / 68719476736"
  by (subst fl_eval [where k = 36]) (simp_all add: roundEven_def)

lemma fl_B4: "fl (4398046511103999 / 2199023255552) = 4398046511103999 / 2199023255552"
  by (subst fl_eval [where k = 42]) (simp_all add: roundEven_def)

lemma fl_B5: "fl (4398046511103999 / 4398046511104000) = 4503599627370495 / 4503599627370496"
  by (subst fl_eval [where k = 53]) (simp_all add: roundEven_def)

lemma fl_B6: "fl (112589990684262375 / 1125899906842624) = 3518437208883199 / 35184372088832"
  by (subst fl_eval [where k = 46]) (simp_all add: roundEven_def)

lemma fl_B7: "fl (163638556343297633 / 2199023255552) = 5113704885728051 / 68719476736"
  by (subst fl_eval [where k = 36]) (simp_all add: roundEven_def)

lemma fl_B8: "fl (2000) = 2000"
  by (subst fl_eval [where k = 42]) (simp_all add: roundEven_def)

lemma fl_B9: "fl (1) = 1"
  by (subst fl_eval [where k = 52]) (simp_all add: roundEven_def)

lemma fl_B10: "fl (100) = 100"
  by (subst fl_eval [where k = 46]) (simp_all add: roundEven_def)

lemma fl_C1: "fl (163791 / 5) = 9004505451252941 / 274877906944"
  by (subst fl_eval [where k = 38]) (simp_all add: roundEven_def)

lemma fl_C2: "fl (329593 / 10) = 2264945849584845 / 68719476736"
  by (subst fl_eval [where k = 37]) (simp_all add: roundEven_def)

lemma fl_C3: "fl (46124512785203 / 274877906944) = 46124512785203 / 274877906944"
  by (subst fl_eval [where k = 45]) (simp_all add: roundEven_def)

lemma fl_C4: "fl (46124512785203 / 549755813888000) = 377852008736383 / 4503599627370496"
  by (subst fl_eval [where k = 56]) (simp_all add: roundEven_def)

lemma fl_C5: "fl (9446300218409575 / 1125899906842624) = 1180787527301197 / 140737488355328"
  by (subst fl_eval [where k = 49]) (simp_all add: roundEven_def)

lemma fl_C6: "fl (9013658885554177 / 274877906944) = 65583 / 2"
  by (subst fl_eval [where k = 37]) (simp_all add: roundEven_def)

lemma fl_C7: "fl (11531128196301 / 68719476736) = 11531128196301 / 68719476736"
  by (subst fl_eval [where k = 45]) (simp_all add: roundEven_def)

lemma fl_C8: "fl (11531128196301 / 137438953472000) = 6045632139782259 / 72057594037927936"
  by (subst fl_eval [where k = 56]) (simp_all add: roundEven_def)

lemma fl_C9: "fl (151140803494556475 / 18014398509481984) = 2361575054602445 / 281474976710656"
  by (subst fl_eval [where k = 49]) (simp_all add: roundEven_def)

lemma fl_C10: "fl (55277947086439 / 274877906944) = 55277947086439 / 274877906944"
  by (subst fl_eval [where k = 45]) (simp_all add: roundEven_def)

lemma fl_C11: "fl (55277947086439 / 549755813888000) = 7245391080513733 / 72057594037927936"
  by (subst fl_eval [where k = 56]) (simp_all add: roundEven_def)

lemma fl_C12: "fl (181134777012843325 / 18014398509481984) = 2830230890825677 / 281474976710656"
  by (subst fl_eval [where k = 49]) (simp_all add: roundEven_def)

lemmas fl_values_A = fl_A1 fl_A2 fl_A3 fl_A4 fl_A5 fl_A6 fl_A7 fl_A8 fl_A9

lemmas fl_values_B = fl_B1 fl_B2 fl_B3 fl_B4 fl_B5 fl_B6 fl_B7 fl_B8 fl_B9 fl_B10

lemmas fl_values_C = fl_C1 fl_C2 fl_C3 fl_C4 fl_C5 fl_C6 fl_C7 fl_C8 fl_C9 fl_C10 fl_C11 fl_C12

lemmas fl_values = fl_values_A fl_values_B fl_values_C

lemma run_A_ticked:
  "exec_fl initialState [FileSelected sampleFile, RunPipeline 3000, Frame (fl (34801 / 10)) (fl (34801 / 10))] =
    \<lparr>file' = Some sampleFile, errorMessage = [], processing = True, paused = False,
     currentStepIndex = 0, stepProgress = 211150212998103 / 8796093022208, timerRef = Some 2,
     stepStartRef = 3000,
     elapsedRef = 1055751064990515 / 2199023255552,
     pendingFrames = [(2, 0, stepOf 0)], nextFrameId = 3\<rparr>"
  by (simp add: evals_fl fl_values)

lemma run_A_paused:
  "exec_fl initialState [FileSelected sampleFile, RunPipeline 3000, Frame (fl (34801 / 10)) (fl (34801 / 10)), PauseClick] =
    \<lparr>file' = Some sampleFile, errorMessage = [], processing = True, paused = True,
     currentStepIndex = 0, stepProgress = 211150212998103 / 8796093022208, timerRef = Some 2,
     stepStartRef = 3000,
     elapsedRef = 1055751064990515 / 2199023255552,
     pendingFrames = [], nextFrameId = 3\<rparr>"
  by (simp add: evals_fl fl_values)

lemma run_A_resumed:
  "exec_fl initialState [FileSelected sampleFile, RunPipeline 3000, Frame (fl (34801 / 10)) (fl (34801 / 10)), PauseClick,
      ResumeClick (fl (90007 / 10)), Frame (fl (90007 / 10)) (fl (90007 / 10))] =
    \<lparr>file' = Some sampleFile, errorMessage = [], processing = True, paused = False,
     currentStepIndex = 0, stepProgress = 3378403407969651 / 140737488355328, timerRef = Some 4,
     stepStartRef = 4684249387814093 / 549755813888,
     elapsedRef = 263937766247629 / 549755813888,
     pendingFrames = [(4, 0, stepOf 0)], nextFrameId = 5\<rparr>"
  by (simp add: evals_fl fl_values)

lemma run_B_paused:
  "exec_fl initialState [FileSelected sampleFile, RunPipeline (fl (31204 / 10)), Frame (fl (51204 / 10)) (fl (51204 / 10)), PauseClick] =
    \<lparr>file' = Some sampleFile, errorMessage = [], processing = True, paused = True,
     currentStepIndex = 0, stepProgress = 3518437208883199 / 35184372088832, timerRef = Some 2,
     stepStartRef = 6861832166624461 / 2199023255552,
     elapsedRef = 4398046511103999 / 2199023255552,
     pendingFrames = [], nextFrameId = 3\<rparr>"
  by (simp add: evals_fl fl_values)

lemma run_B_resumed:
  "exec_fl initialState [FileSelected sampleFile, RunPipeline (fl (31204 / 10)), Frame (fl (51204 / 10)) (fl (51204 / 10)), PauseClick,
      ResumeClick (fl (764142 / 10)), Frame (fl (764142 / 10)) (fl (764142 / 10))] =
    \<lparr>file' = Some sampleFile, errorMessage = [], processing = True, paused = False,
     currentStepIndex = 1, stepProgress = 0, timerRef = Some 4,
     stepStartRef = 5251143839200051 / 68719476736,
     elapsedRef = 0,
     pendingFrames = [(4, 1, stepOf 1)], nextFrameId = 5\<rparr>"
  by (simp add: evals_fl fl_values)

lemma run_C_ticked:
  "exec_fl initialState [FileSelected sampleFile, RunPipeline (fl (327582 / 10)), Frame 32926 32926] =
    \<lparr>file' = Some sampleFile, errorMessage = [], processing = True, paused = False,
     currentStepIndex = 0, stepProgress = 1180787527301197 / 140737488355328, timerRef = Some 2,
     stepStartRef = 9004505451252941 / 274877906944,
     elapsedRef = 46124512785203 / 274877906944,
     pendingFrames = [(2, 0, stepOf 0)], nextFrameId = 3\<rparr>"
  by (simp add: evals_fl fl_values)

subsection \<open>Resume continuity\<close>

text \<open>
  C1 as stated has the first tick after \<open>resume\<close> yield exactly the elapsed time \<open>E\<close> of
  before the pause and the same progress. On doubles it does not. Run A is paused with
  elapsed time 480.0999999999999 and progress 24.004999999999995; after the resume at
  9000.7 the tick at 9000.7 yields 480.10000000000036 and 24.005000000000017. Run B is
  paused in step 0 at progress 99.99999999999997; after the resume at 76414.2 the tick
  at 76414.2 computes 100, and the run is in step 1 with progress 0.
\<close>

theorem resume_exact_counterexample:
  "status (exec_fl initialState [FileSelected sampleFile, RunPipeline 3000, Frame (fl (34801 / 10)) (fl (34801 / 10)), PauseClick]) = Paused
   \<and> elapsedRef (exec_fl initialState [FileSelected sampleFile, RunPipeline 3000, Frame (fl (34801 / 10)) (fl (34801 / 10)), PauseClick])
       = 1055751064990515 / 2199023255552
   \<and> stepProgress (exec_fl initialState [FileSelected sampleFile, RunPipeline 3000, Frame (fl (34801 / 10)) (fl (34801 / 10)), PauseClick])
       = 211150212998103 / 8796093022208
   \<and> elapsedRef (exec_fl initialState [FileSelected sampleFile, RunPipeline 3000, Frame (fl (34801 / 10)) (fl (34801 / 10)), PauseClick,
         ResumeClick (fl (90007 / 10)), Frame (fl (90007 / 10)) (fl (90007 / 10))])
       = 263937766247629 / 549755813888
   \<and> stepProgress (exec_fl initialState [FileSelected sampleFile, RunPipeline 3000, Frame (fl (34801 / 10)) (fl (34801 / 10)), PauseClick,
         ResumeClick (fl (90007 / 10)), Frame (fl (90007 / 10)) (fl (90007 / 10))])
       = 3378403407969651 / 140737488355328
   \<and> elapsedRef (exec_fl initialState [FileSelected sampleFile, RunPipeline 3000, Frame (fl (34801 / 10)) (fl (34801 / 10)), PauseClick,
         ResumeClick (fl (90007 / 10)), Frame (fl (90007 / 10)) (fl (90007 / 10))])
       \<noteq> elapsedRef (exec_fl initialState [FileSelected sampleFile, RunPipeline 3000, Frame (fl (34801 / 10)) (fl (34801 / 10)), PauseClick])
   \<and> stepProgress (exec_fl initialState [FileSelected sampleFile, RunPipeline 3000, Frame (fl (34801 / 10)) (fl (34801 / 10)), PauseClick,
         ResumeClick (fl (90007 / 10)), Frame (fl (90007 / 10)) (fl (90007 / 10))])
       \<noteq> stepProgress (exec_fl initialState [FileSelected sampleFile, RunPipeline 3000, Frame (fl (34801 / 10)) (fl (34801 / 10)), PauseClick])
   \<and> currentStepIndex (exec_fl initialState [FileSelected sampleFile, RunPipeline (fl (31204 / 10)), Frame (fl (51204 / 10)) (fl (51204 / 10)), PauseClick]) = 0
   \<and> stepProgress (exec_fl initialState [FileSelected sampleFile, RunPipeline (fl (31204 / 10)), Frame (fl (51204 / 10)) (fl (51204 / 10)), PauseClick])
       = 3518437208883199 / 35184372088832
   \<and> currentStepIndex (exec_fl initialState [FileSelected sampleFile, RunPipeline (fl (31204 / 10)), Frame (fl (51204 / 10)) (fl (51204 / 10)), PauseClick,
         ResumeClick (fl (764142 / 10)), Frame (fl (764142 / 10)) (fl (764142 / 10))]) = 1
   \<and> stepProgress (exec_fl initialState [FileSelected sampleFile, RunPipeline (fl (31204 / 10)), Frame (fl (51204 / 10)) (fl (51204 / 10)), PauseClick,
         ResumeClick (fl (764142 / 10)), Frame (fl (764142 / 10)) (fl (764142 / 10))]) = 0"
  unfolding run_A_paused run_A_resumed run_B_paused run_B_resumed
  by (simp add: status_def)

text \<open>
  C1, as the code has it. Take any reachable running state with elapsed time
  \<open>E = elapsedRef\<close>, and a clock reading \<open>t0\<close> with \<open>0 \<le> E \<le> t0\<close>. \<open>pause\<close> leaves the
  elapsed time and the progress as they are (status \<open>Paused\<close>). \<open>resume\<close> at \<open>t0\<close> sets the
  stage-start reference to \<open>t0 - E\<close> rounded. The first tick after it, reading the clock at
  \<open>t0\<close>, computes the elapsed time \<open>e' = fl (t0 - fl (t0 - E))\<close>, which is \<open>E\<close> up to
  rounding: it differs from \<open>E\<close> by at most \<open>t0 / 2 ^ 52\<close>; and the progress it computes
  from \<open>e'\<close> differs from the progress before the pause by at most
  \<open>t0 / (2 ^ 43 * durationMs)\<close>. While that progress is below 100 the tick stores both
  and the run stays in its step, running; where \<open>e' = E\<close> they are the values of before
  the pause.
\<close>

theorem resume_within_rounding:
  assumes "s = exec_fl initialState evs" and "status s = Running"
    and "0 \<le> elapsedRef s" and "elapsedRef s \<le> t0"
  shows
    "let E = elapsedRef s;
         st = stepOf (currentStepIndex s);
         p = dispatch_fl PauseClick s;
         r = dispatch_fl (ResumeClick t0) p;
         e' = fl (t0 - fl (t0 - E));
         s' = dispatch_fl (Frame t0 t1) r
     in status p = Paused \<and> elapsedRef p = E \<and> stepProgress p = stepProgress s
      \<and> stepStartRef r = fl (t0 - E) \<and> status r = Running
      \<and> \<bar>e' - E\<bar> \<le> t0 / 2 ^ 52
      \<and> \<bar>pct_fl st e' - stepProgress s\<bar> \<le> t0 / (2 ^ 43 * durationMs st)
      \<and> (pct_fl st e' < 100 \<longrightarrow>
           elapsedRef s' = e' \<and> stepProgress s' = pct_fl st e'
           \<and> currentStepIndex s' = currentStepIndex s \<and> status s' = Running)
      \<and> (e' = E \<longrightarrow> elapsedRef s' = E \<and> stepProgress s' = stepProgress s)"
proof -
  have I: "pipelineInv_fl s" unfolding assms(1) by (rule inv_fl_reachable)
  note f = running_facts_fl [OF I assms(2)]
  define E where "E = elapsedRef s"
  define idx where "idx = currentStepIndex s"
  define st where "st = stepOf idx"
  define p where "p = dispatch_fl PauseClick s"
  define r where "r = dispatch_fl (ResumeClick t0) p"
  define e' where "e' = fl (t0 - fl (t0 - E))"
  define s' where "s' = dispatch_fl (Frame t0 t1) r"
  have p: "p = s\<lparr>paused := True, pendingFrames := []\<rparr>"
    unfolding p_def using I assms(2) by (rule pause_running_fl)
  have a: "status p = Paused \<and> elapsedRef p = E \<and> stepProgress p = stepProgress s"
    using f(1,3) by (simp add: p status_def E_def)
  have r: "r = requestAnimationFrame idx st
      (p\<lparr>paused := False, stepStartRef := fl (t0 - E)\<rparr>)"
    unfolding r_def using resume_fl_paused [of p t0] f(1,3,4)
    by (simp add: p idx_def st_def E_def)
  have b: "stepStartRef r = fl (t0 - E) \<and> status r = Running"
    using f(1,3) by (simp add: r p requestAnimationFrame_def status_def)
  have d: "0 < durationMs st" using f(3,4) by (simp add: st_def idx_def stepOf_duration_pos)
  have c: "\<bar>e' - E\<bar> \<le> t0 / 2 ^ 52"
    unfolding e'_def using assms(3,4) by (intro rebase_error) (simp_all add: E_def)
  have sp: "stepProgress s = pct_fl st E" using f(6) by (simp add: st_def idx_def E_def)
  have g: "\<bar>pct_fl st e' - stepProgress s\<bar> \<le> t0 / (2 ^ 43 * durationMs st)"
    unfolding sp using d assms(3,4) c by (intro pct_fl_error) (simp_all add: E_def)
  have q: "pendingFrames r = [(nextFrameId p, idx, st)]"
    by (simp add: r p requestAnimationFrame_def)
  have er: "fl (t0 - stepStartRef r) = e'"
    by (simp add: r e'_def requestAnimationFrame_def)
  have h: "elapsedRef s' = e' \<and> stepProgress s' = pct_fl st e'
      \<and> currentStepIndex s' = currentStepIndex s \<and> status s' = Running"
    if lt: "pct_fl st e' < 100"
  proof -
    from lt have lt': "pct_fl st (fl (t0 - stepStartRef r)) < 100" by (simp add: er)
    show ?thesis
      unfolding s'_def frame_fl_continue [OF q lt'] using f(1,3)
      by (simp add: e'_def requestAnimationFrame_def r p status_def idx_def)
  qed
  have k: "elapsedRef s' = E \<and> stepProgress s' = stepProgress s" if "e' = E"
  proof -
    from that f(5) sp have "pct_fl st e' < 100" by simp
    from h [OF this] that sp show ?thesis by simp
  qed
  from a b c g h k show ?thesis
    unfolding Let_def E_def [symmetric] idx_def [symmetric] st_def [symmetric]
      p_def [symmetric] r_def [symmetric] e'_def [symmetric] s'_def [symmetric]
    by blast
qed

theorem resume_within_rounding_witness:
  "status (exec_fl initialState [FileSelected sampleFile, RunPipeline 3000, Frame (fl (34801 / 10)) (fl (34801 / 10))]) = Running
   \<and> elapsedRef (exec_fl initialState [FileSelected sampleFile, RunPipeline 3000, Frame (fl (34801 / 10)) (fl (34801 / 10))]) = 1055751064990515 / 2199023255552
   \<and> (0 :: real) \<le> 1055751064990515 / 2199023255552
   \<and> 1055751064990515 / 2199023255552 \<le> fl (90007 / 10)
   \<and> stepStartRef (dispatch_fl (ResumeClick (fl (90007 / 10)))
         (dispatch_fl PauseClick (exec_fl initialState [FileSelected sampleFile, RunPipeline 3000, Frame (fl (34801 / 10)) (fl (34801 / 10))])))
       = 4684249387814093 / 549755813888
   \<and> fl (fl (90007 / 10) - fl (fl (90007 / 10) - 1055751064990515 / 2199023255552)) = 263937766247629 / 549755813888
   \<and> \<bar>263937766247629 / 549755813888 - 1055751064990515 / 2199023255552\<bar> \<le> fl (90007 / 10) / 2 ^ 52
   \<and> elapsedRef (dispatch_fl (Frame (fl (90007 / 10)) (fl (90007 / 10)))
         (dispatch_fl (ResumeClick (fl (90007 / 10)))
           (dispatch_fl PauseClick (exec_fl initialState [FileSelected sampleFile, RunPipeline 3000, Frame (fl (34801 / 10)) (fl (34801 / 10))]))))
       = 263937766247629 / 549755813888
   \<and> stepProgress (dispatch_fl (Frame (fl (90007 / 10)) (fl (90007 / 10)))
         (dispatch_fl (ResumeClick (fl (90007 / 10)))
           (dispatch_fl PauseClick (exec_fl initialState [FileSelected sampleFile, RunPipeline 3000, Frame (fl (34801 / 10)) (fl (34801 / 10))]))))
       = 3378403407969651 / 140737488355328"
proof -
  have r: "status (exec_fl initialState [FileSelected sampleFile, RunPipeline 3000, Frame (fl (34801 / 10)) (fl (34801 / 10))]) = Running"
    unfolding run_A_ticked by (simp add: status_def)
  have lo: "0 \<le> elapsedRef (exec_fl initialState [FileSelected sampleFile, RunPipeline 3000, Frame (fl (34801 / 10)) (fl (34801 / 10))])"
    unfolding run_A_ticked by simp
  have hi: "elapsedRef (exec_fl initialState [FileSelected sampleFile, RunPipeline 3000, Frame (fl (34801 / 10)) (fl (34801 / 10))]) \<le> fl (90007 / 10)"
    unfolding run_A_ticked by (simp add: fl_values)
  show ?thesis
    using r resume_within_rounding [OF refl r lo hi, of "fl (90007 / 10)"]
    unfolding run_A_ticked
    by (simp add: Let_def evals_fl fl_values pct_fl_def)
qed

subsection \<open>Resume while running\<close>

text \<open>
  C10 as stated fails: a run started at 0 whose last tick was at 480 has
  \<open>elapsedRef = 480\<close>. A tick at 500 yields elapsed 500 and progress 25; after a redundant
  \<open>resume\<close> at 500 the tick at 500 yields elapsed 480 and progress 24.
\<close>

theorem redundant_resume_counterexample:
  "status (exec initialState [FileSelected sampleFile, RunPipeline 0, Frame 480 480]) = Running
   \<and> elapsedRef (exec (exec initialState [FileSelected sampleFile, RunPipeline 0, Frame 480 480])
        [ResumeClick 500, Frame 500 500]) = 480
   \<and> elapsedRef (exec (exec initialState [FileSelected sampleFile, RunPipeline 0, Frame 480 480])
        [Frame 500 500]) = 500
   \<and> stepProgress (exec (exec initialState [FileSelected sampleFile, RunPipeline 0, Frame 480 480])
        [ResumeClick 500, Frame 500 500]) = 24
   \<and> stepProgress (exec (exec initialState [FileSelected sampleFile, RunPipeline 0, Frame 480 480])
        [Frame 500 500]) = 25"
  unfolding ticked_state by (simp add: evals)

text \<open>
  C10, as the code has it. Take any reachable running state with \<open>E = elapsedRef\<close>, the
  elapsed time the last tick wrote, and a clock reading \<open>t0\<close> with \<open>0 \<le> E \<le> t0\<close>.
  \<open>resume\<close> at \<open>t0\<close> sets the stage-start reference to \<open>t0 - E\<close> rounded, and the tick at
  \<open>t0\<close> after it computes the elapsed time \<open>fl (t0 - fl (t0 - E))\<close>, within \<open>t0 / 2 ^ 52\<close>
  of \<open>E\<close>, and a progress within \<open>t0 / (2 ^ 43 * durationMs)\<close> of the last tick's; while
  that progress is below 100 it stores them, in the same step. The tick at \<open>t0\<close> without
  the \<open>resume\<close> computes the elapsed time \<open>fl (t0 - stepStartRef)\<close> instead. The two ticks
  give the same state when the reference already is \<open>fl (t0 - E)\<close>, so that \<open>resume\<close>
  changes nothing.
\<close>

theorem redundant_resume_rounding:
  assumes "s = exec_fl initialState evs" and "status s = Running"
    and "0 \<le> elapsedRef s" and "elapsedRef s \<le> t0"
  shows
    "let E = elapsedRef s;
         st = stepOf (currentStepIndex s);
         r = dispatch_fl (ResumeClick t0) s;
         e' = fl (t0 - fl (t0 - E));
         e0 = fl (t0 - stepStartRef s);
         s' = dispatch_fl (Frame t0 t1) r;
         s0 = dispatch_fl (Frame t0 t1) s
     in stepStartRef r = fl (t0 - E) \<and> status r = Running
      \<and> \<bar>e' - E\<bar> \<le> t0 / 2 ^ 52
      \<and> \<bar>pct_fl st e' - stepProgress s\<bar> \<le> t0 / (2 ^ 43 * durationMs st)
      \<and> (pct_fl st e' < 100 \<longrightarrow>
           elapsedRef s' = e' \<and> stepProgress s' = pct_fl st e'
           \<and> currentStepIndex s' = currentStepIndex s \<and> status s' = Running)
      \<and> (pct_fl st e0 < 100 \<longrightarrow>
           elapsedRef s0 = e0 \<and> stepProgress s0 = pct_fl st e0
           \<and> currentStepIndex s0 = currentStepIndex s \<and> status s0 = Running)
      \<and> (stepStartRef s = fl (t0 - E) \<longrightarrow> r = s \<and> s' = s0)"
proof -
  have I: "pipelineInv_fl s" unfolding assms(1) by (rule inv_fl_reachable)
  note f = running_facts_fl [OF I assms(2)]
  define E where "E = elapsedRef s"
  define idx where "idx = currentStepIndex s"
  define st where "st = stepOf idx"
  define r where "r = dispatch_fl (ResumeClick t0) s"
  define e' where "e' = fl (t0 - fl (t0 - E))"
  define e0 where "e0 = fl (t0 - stepStartRef s)"
  define s' where "s' = dispatch_fl (Frame t0 t1) r"
  define s0 where "s0 = dispatch_fl (Frame t0 t1) s"
  have r: "r = s\<lparr>paused := False, stepStartRef := fl (t0 - E)\<rparr>"
    unfolding r_def E_def using f(1,2) by (rule resume_fl_running)
  have b: "stepStartRef r = fl (t0 - E) \<and> status r = Running"
    using f(1,3) by (simp add: r status_def)
  have d: "0 < durationMs st" using f(3,4) by (simp add: st_def idx_def stepOf_duration_pos)
  have c: "\<bar>e' - E\<bar> \<le> t0 / 2 ^ 52"
    unfolding e'_def using assms(3,4) by (intro rebase_error) (simp_all add: E_def)
  have sp: "stepProgress s = pct_fl st E" using f(6) by (simp add: st_def idx_def E_def)
  have g: "\<bar>pct_fl st e' - stepProgress s\<bar> \<le> t0 / (2 ^ 43 * durationMs st)"
    unfolding sp using d assms(3,4) c by (intro pct_fl_error) (simp_all add: E_def)
  have q0: "pendingFrames s = [(the (timerRef s), idx, st)]"
    using f(7) by (simp add: idx_def st_def)
  have q: "pendingFrames r = [(the (timerRef s), idx, st)]"
    using q0 by (simp add: r)
  have er: "fl (t0 - stepStartRef r) = e'" by (simp add: r e'_def)
  have h: "elapsedRef s' = e' \<and> stepProgress s' = pct_fl st e'
      \<and> currentStepIndex s' = currentStepIndex s \<and> status s' = Running"
    if lt: "pct_fl st e' < 100"
  proof -
    from lt have lt': "pct_fl st (fl (t0 - stepStartRef r)) < 100" by (simp add: er)
    show ?thesis
      unfolding s'_def frame_fl_continue [OF q lt'] using f(1,3)
      by (simp add: e'_def requestAnimationFrame_def r status_def)
  qed
  have h0: "elapsedRef s0 = e0 \<and> stepProgress s0 = pct_fl st e0
      \<and> currentStepIndex s0 = currentStepIndex s \<and> status s0 = Running"
    if lt: "pct_fl st e0 < 100"
  proof -
    from lt have lt': "pct_fl st (fl (t0 - stepStartRef s)) < 100" by (simp add: e0_def)
    show ?thesis
      unfolding s0_def frame_fl_continue [OF q0 lt'] using f(1,2,3)
      by (simp add: e0_def requestAnimationFrame_def status_def)
  qed
  have k: "r = s \<and> s' = s0" if "stepStartRef s = fl (t0 - E)"
  proof -
    have "r = s" using f(2) that by (cases s) (simp add: r)
    then show ?thesis by (simp add: s'_def s0_def)
  qed
  from b c g h h0 k show ?thesis
    unfolding Let_def E_def [symmetric] idx_def [symmetric] st_def [symmetric]
      r_def [symmetric] e'_def [symmetric] e0_def [symmetric] s'_def [symmetric]
      s0_def [symmetric]
    by blast
qed

theorem redundant_resume_rounding_witness:
  "status (exec_fl initialState [FileSelected sampleFile, RunPipeline (fl (327582 / 10)), Frame 32926 32926]) = Running
   \<and> elapsedRef (exec_fl initialState [FileSelected sampleFile, RunPipeline (fl (327582 / 10)), Frame 32926 32926]) = 46124512785203 / 274877906944
   \<and> (0 :: real) \<le> 46124512785203 / 274877906944
   \<and> 46124512785203 / 274877906944 \<le> fl (329593 / 10)
   \<and> stepStartRef (dispatch_fl (ResumeClick (fl (329593 / 10))) (exec_fl initialState [FileSelected sampleFile, RunPipeline (fl (327582 / 10)), Frame 32926 32926]))
       = 65583 / 2
   \<and> \<bar>11531128196301 / 68719476736 - 46124512785203 / 274877906944\<bar> \<le> fl (329593 / 10) / 2 ^ 52
   \<and> elapsedRef (dispatch_fl (Frame (fl (329593 / 10)) (fl (329593 / 10)))
         (dispatch_fl (ResumeClick (fl (329593 / 10))) (exec_fl initialState [FileSelected sampleFile, RunPipeline (fl (327582 / 10)), Frame 32926 32926])))
       = 11531128196301 / 68719476736
   \<and> stepProgress (dispatch_fl (Frame (fl (329593 / 10)) (fl (329593 / 10)))
         (dispatch_fl (ResumeClick (fl (329593 / 10))) (exec_fl initialState [FileSelected sampleFile, RunPipeline (fl (327582 / 10)), Frame 32926 32926])))
       = 2361575054602445 / 281474976710656
   \<and> elapsedRef (dispatch_fl (Frame (fl (329593 / 10)) (fl (329593 / 10))) (exec_fl initialState [FileSelected sampleFile, RunPipeline (fl (327582 / 10)), Frame 32926 32926]))
       = 55277947086439 / 274877906944
   \<and> stepProgress (dispatch_fl (Frame (fl (329593 / 10)) (fl (329593 / 10))) (exec_fl initialState [FileSelected sampleFile, RunPipeline (fl (327582 / 10)), Frame 32926 32926]))
       = 2830230890825677 / 281474976710656"
proof -
  have r: "status (exec_fl initialState [FileSelected sampleFile, RunPipeline (fl (327582 / 10)), Frame 32926 32926]) = Running"
    unfolding run_C_ticked by (simp add: status_def)
  have lo: "0 \<le> elapsedRef (exec_fl initialState [FileSelected sampleFile, RunPipeline (fl (327582 / 10)), Frame 32926 32926])"
    unfolding run_C_ticked by simp
  have hi: "elapsedRef (exec_fl initialState [FileSelected sampleFile, RunPipeline (fl (327582 / 10)), Frame 32926 32926]) \<le> fl (329593 / 10)"
    unfolding run_C_ticked by (simp add: fl_values)
  show ?thesis
    using r redundant_resume_rounding [OF refl r lo hi, of "fl (329593 / 10)"]
    unfolding run_C_ticked
    by (simp add: Let_def evals_fl fl_values pct_fl_def)
qed

section \<open>Numeric edge cases\<close>

lemma queue_steps:
  assumes "queueOk s" "fr \<in> set (pendingFrames s)"
  shows "stepAt (fst (snd fr)) = Some (snd (snd fr)) \<and> 0 < durationMs (snd (snd fr))"
proof -
  from assms have "effectActive s"
    and q: "pendingFrames s = [(the (timerRef s), currentStepIndex s, stepOf (currentStepIndex s))]"
    by (auto simp: queueOk_def split: if_splits)
  then have i: "0 \<le> currentStepIndex s" "currentStepIndex s < 6"
    by (auto simp: effectActive_def stepAt_None_iff)
  from q assms(2) have "fst (snd fr) = currentStepIndex s"
    "snd (snd fr) = stepOf (currentStepIndex s)"
    by auto
  with i show ?thesis by (simp add: stepAt_valid stepOf_duration_pos)
qed

text \<open>
  C8 as stated has the planner clamp the size to at least 1, so that a zero-byte file
  gets at least one part. \<open>computePartCount\<close> has no clamp: for 0 bytes it returns 0.
\<close>

theorem zero_byte_plan_counterexample:
  "computePartCount 0 = 0 \<and> \<not> 1 \<le> computePartCount 0 \<and> partPlan 0 = (8388608, 0)"
  by (simp add: computePartCount_def partPlan_def ceilDiv_def)

text \<open>
  C8, as the code has it. There is no minimum-duration guard and no clamp of the size.
  In every reachable state, with exact and with rounded arithmetic, every requested
  frame is closed over a step of the table, whose duration is positive; \<open>runFrame\<close> runs
  \<open>tick\<close> with that step, so the division in \<open>tick\<close> never has the divisor 0. The
  planner does not clamp its input: a zero-byte file yields 0 parts, and every size of
  at least 1 byte yields at least 1 part.
\<close>

theorem numeric_edge_cases:
  "(\<forall>fr \<in> set (pendingFrames (exec initialState evs)).
       stepAt (fst (snd fr)) = Some (snd (snd fr)) \<and> 0 < durationMs (snd (snd fr)))
   \<and> (\<forall>fr \<in> set (pendingFrames (exec_fl initialState evs)).
       stepAt (fst (snd fr)) = Some (snd (snd fr)) \<and> 0 < durationMs (snd (snd fr)))
   \<and> (pendingFrames (exec initialState evs) = fr # rest \<longrightarrow>
        runFrame now now2 (exec initialState evs)
          = tick (fst (snd fr)) (snd (snd fr)) now now2
              ((exec initialState evs)\<lparr>pendingFrames := rest\<rparr>)
        \<and> 0 < durationMs (snd (snd fr)))
   \<and> (stepAt i = Some st \<longrightarrow> 0 < durationMs st)
   \<and> (\<forall>st \<in> set STEP_DEFINITIONS. 0 < durationMs st)
   \<and> computePartCount 0 = 0
   \<and> (1 \<le> sizeBytes \<longrightarrow> 1 \<le> computePartCount sizeBytes)"
proof -
  have q: "queueOk (exec initialState evs)"
    using inv_reachable [of evs] by (simp add: pipelineInv_def)
  have qf: "queueOk (exec_fl initialState evs)"
    using inv_fl_reachable [of evs] by (simp add: pipelineInv_fl_def)
  have a: "\<forall>fr \<in> set (pendingFrames (exec initialState evs)).
       stepAt (fst (snd fr)) = Some (snd (snd fr)) \<and> 0 < durationMs (snd (snd fr))"
    using queue_steps [OF q] by blast
  have b: "\<forall>fr \<in> set (pendingFrames (exec_fl initialState evs)).
       stepAt (fst (snd fr)) = Some (snd (snd fr)) \<and> 0 < durationMs (snd (snd fr))"
    using queue_steps [OF qf] by blast
  have c: "runFrame now now2 (exec initialState evs)
          = tick (fst (snd fr)) (snd (snd fr)) now now2
              ((exec initialState evs)\<lparr>pendingFrames := rest\<rparr>)
        \<and> 0 < durationMs (snd (snd fr))"
    if "pendingFrames (exec initialState evs) = fr # rest"
    using that a by (simp add: runFrame_def)
  have d: "\<forall>st \<in> set STEP_DEFINITIONS. 0 < durationMs st"
    by (simp add: STEP_DEFINITIONS_def)
  have e: "1 \<le> computePartCount sizeBytes" if "1 \<le> sizeBytes"
    using partPlan_bounds [OF that] by (simp add: computePartCount_def)
  from a b c d e show ?thesis
    using durations_positive [of i st] computePartCount_zero by blast
qed

theorem numeric_edge_cases_witness:
  "pendingFrames (exec initialState [FileSelected sampleFile, RunPipeline 0]) = [(1, 0, stepOf 0)]
   \<and> stepAt 0 = Some (stepOf 0) \<and> durationMs (stepOf 0) = 2000
   \<and> 0 < durationMs (stepOf 0)
   \<and> runFrame 500 500 (exec initialState [FileSelected sampleFile, RunPipeline 0])
       = tick 0 (stepOf 0) 500 500
           ((exec initialState [FileSelected sampleFile, RunPipeline 0])\<lparr>pendingFrames := []\<rparr>)
   \<and> stepAt 1 = Some (stepOf 1) \<and> 0 < durationMs (stepOf 1)
   \<and> computePartCount 0 = 0 \<and> (1::nat) \<le> 1024 \<and> 1 \<le> computePartCount 1024"
proof -
  have s: "stepAt 1 = Some (stepOf 1)" by (simp add: stepAt_valid)
  have q: "pendingFrames (exec initialState [FileSelected sampleFile, RunPipeline 0])
      = (1, 0, stepOf 0) # []"
    unfolding started_state by simp
  show ?thesis
    using s q numeric_edge_cases
      [of "[FileSelected sampleFile, RunPipeline 0]" "(1, 0, stepOf 0)" "[]" 500 500 1 "stepOf 1" 1024]
    by (simp add: durations stepAt_valid)
qed

end
